theory Spec2Isabelle
  imports Main "HOL-Library.Word" "HOL-Library.Sublist"
begin

unbundle bit_operations_syntax

section \<open>ARM hardware feature detection (mono/utils/mono-hwcap-arm.c)\<close>

subsection \<open>The global flags and the effects of a run\<close>

text \<open>
  Lines 37-44 declare eight global \<^verbatim>\<open>gboolean\<close> variables, all initialised to
  \<^verbatim>\<open>FALSE\<close>. They are modelled as a store from the variable's name to its value.
  Only \<^verbatim>\<open>TRUE\<close> and \<^verbatim>\<open>FALSE\<close> are ever stored, so the value type is \<open>bool\<close>.
\<close>

datatype flag =
    mono_hwcap_arm_is_v5
  | mono_hwcap_arm_is_v6
  | mono_hwcap_arm_is_v7
  | mono_hwcap_arm_has_vfp
  | mono_hwcap_arm_has_vfp3
  | mono_hwcap_arm_has_vfp3_d16
  | mono_hwcap_arm_has_thumb
  | mono_hwcap_arm_has_thumb2

definition initial_globals :: "flag \<Rightarrow> bool" where
  "initial_globals = (\<lambda>x. False)"

text \<open>
  What a run does besides leaving values in the globals is recorded in a trace: every
  assignment to a global, in program order, and every call that leaves the file.
\<close>

datatype extern =
    Getauxval_AT_HWCAP
  | Getauxval_AT_PLATFORM
  | Sysctlbyname
  | Uname
  | Fopen
  | Fgets
  | Fclose

datatype event = Store flag bool | Call extern

record machine =
  globals :: "flag \<Rightarrow> bool"
  trace :: "event list"

definition assign :: "flag \<Rightarrow> bool \<Rightarrow> machine \<Rightarrow> machine" where
  "assign x v m = m\<lparr>globals := (globals m)(x := v), trace := trace m @ [Store x v]\<rparr>"

definition call :: "extern \<Rightarrow> machine \<Rightarrow> machine" where
  "call e m = m\<lparr>trace := trace m @ [Call e]\<rparr>"

text \<open>
  The two ways a run does not return: the \<^verbatim>\<open>g_assert\<close> of line 115 fails, or line 76
  reads \<^verbatim>\<open>str [1]\<close> behind the terminator of an empty platform string.
\<close>

datatype error = Assertion_failed | Read_out_of_bounds

subsection \<open>Build configuration and environment\<close>

text \<open>
  The preprocessor selects one of three bodies (lines 49, 87, 105) and, in the third, the
  \<^verbatim>\<open>uname\<close> block (line 111). Whether plain \<^verbatim>\<open>char\<close> is signed is fixed by the target
  ABI. The \<^verbatim>\<open>CPU_SUBTYPE_ARM_*\<close> constants come from the system header
  \<^verbatim>\<open>mach/machine.h\<close> and are taken as parameters.
\<close>

record build =
  HAVE_SYS_AUXV_H :: bool
  PLATFORM_ANDROID :: bool
  APPLE :: bool
  HAVE_SYS_UTSNAME_H :: bool
  char_is_signed :: bool
  CPU_SUBTYPE_ARM_V5TEJ :: int
  CPU_SUBTYPE_ARM_XSCALE :: int
  CPU_SUBTYPE_ARM_V6 :: int
  CPU_SUBTYPE_ARM_V7 :: int
  CPU_SUBTYPE_ARM_V7F :: int
  CPU_SUBTYPE_ARM_V7K :: int

text \<open>
  What the operating system answers. A C string is the list of its characters before the
  terminating NUL.
  \<^item> \<open>auxv_hwcap\<close>: the value of \<^verbatim>\<open>getauxval(AT_HWCAP)\<close> (\<^verbatim>\<open>unsigned long\<close>, 32 bits on ARM);
  \<^item> \<open>auxv_platform\<close>: \<^verbatim>\<open>getauxval(AT_PLATFORM)\<close>, \<open>None\<close> for 0, otherwise the string
    the returned address points to;
  \<^item> \<open>hw_cpusubtype\<close>: the value in \<^verbatim>\<open>sub_type\<close> after \<^verbatim>\<open>sysctlbyname\<close>;
  \<^item> \<open>utsname_machine\<close>: \<open>None\<close> when \<^verbatim>\<open>uname\<close> fails, otherwise \<^verbatim>\<open>name.machine\<close>;
  \<^item> \<open>proc_cpuinfo\<close>: \<open>None\<close> when \<^verbatim>\<open>fopen ("/proc/cpuinfo", "r")\<close> returns NULL,
    otherwise the bytes of the file (reads of an opened file are taken to succeed).
\<close>

record environment =
  auxv_hwcap :: "32 word"
  auxv_platform :: "string option"
  hw_cpusubtype :: int
  utsname_machine :: "string option"
  proc_cpuinfo :: "string option"

subsection \<open>The C library functions the code calls\<close>

text \<open>The integer value of a plain \<^verbatim>\<open>char\<close> in a comparison.\<close>

definition char_value :: "build \<Rightarrow> char \<Rightarrow> int" where
  "char_value cfg c =
     (let n = of_char c in if char_is_signed cfg \<and> 128 \<le> n then n - 256 else n)"

text \<open>
  \<^verbatim>\<open>s [i]\<close> for a C string and an index up to its length: the character, or the
  terminating NUL at \<open>i = length s\<close>. Callers check the bound.
\<close>

definition c_char :: "string \<Rightarrow> nat \<Rightarrow> char" where
  "c_char s i = (if i < length s then s ! i else CHR 0x00)"

text \<open>The C string held in a buffer: the bytes before the first NUL.\<close>

definition c_str :: "string \<Rightarrow> string" where
  "c_str buf = takeWhile (\<lambda>c. c \<noteq> CHR 0x00) buf"

text \<open>
  \<^verbatim>\<open>strncmp\<close>: compares at most \<open>n\<close> characters as \<^verbatim>\<open>unsigned char\<close>, the end of a
  string counting as NUL.
\<close>

fun strncmp :: "string \<Rightarrow> string \<Rightarrow> nat \<Rightarrow> int" where
  "strncmp s1 s2 0 = 0"
| "strncmp [] [] (Suc n) = 0"
| "strncmp [] (y # ys) (Suc n) = - of_char y"
| "strncmp (x # xs) [] (Suc n) = of_char x"
| "strncmp (x # xs) (y # ys) (Suc n) =
     (if x = y then strncmp xs ys n else of_char x - of_char y)"

text \<open>
  \<^verbatim>\<open>strstr\<close>: the part of the haystack from the first occurrence of the needle on,
  \<open>None\<close> for NULL.
\<close>

fun strstr :: "string \<Rightarrow> string \<Rightarrow> string option" where
  "strstr [] needle = (if needle = [] then Some [] else None)"
| "strstr (c # cs) needle =
     (if prefix needle (c # cs) then Some (c # cs) else strstr cs needle)"

text \<open>
  \<^verbatim>\<open>fgets (buf, n, file)\<close> stores at most \<open>n - 1\<close> bytes, stopping behind a newline;
  \<open>read_line k\<close> is what it stores when \<open>k\<close> bytes fit. The result is NULL (\<open>None\<close>) at
  the end of the file, otherwise the bytes stored and the rest of the stream.
\<close>

fun read_line :: "nat \<Rightarrow> string \<Rightarrow> string" where
  "read_line 0 cs = []"
| "read_line (Suc k) [] = []"
| "read_line (Suc k) (c # cs) =
     (if c = CHR ''\<newline>'' then [c] else c # read_line k cs)"

definition fgets :: "nat \<Rightarrow> string \<Rightarrow> (string \<times> string) option" where
  "fgets n stream =
     (if stream = [] then None
      else let stored = read_line (n - 1) stream
           in Some (stored, drop (length stored) stream))"

subsection \<open>mono_hwcap_arch_init\<close>

text \<open>
  Lines 76-83 and 167-174: the same three tests, on \<^verbatim>\<open>str [1]\<close> and on \<^verbatim>\<open>ver [2]\<close>.
\<close>

definition version_checks :: "build \<Rightarrow> char \<Rightarrow> machine \<Rightarrow> machine" where
  "version_checks cfg c m0 =
     (let m1 = (if char_value cfg c \<ge> char_value cfg CHR ''5''
                then assign mono_hwcap_arm_is_v5 True m0 else m0);
          m2 = (if char_value cfg c \<ge> char_value cfg CHR ''6''
                then assign mono_hwcap_arm_is_v6 True m1 else m1);
          m3 = (if char_value cfg c \<ge> char_value cfg CHR ''7''
                then assign mono_hwcap_arm_is_v7 True m2 else m2)
      in m3)"

text \<open>Lines 50-86: the auxiliary vector.\<close>

definition hwcap_checks :: "32 word \<Rightarrow> machine \<Rightarrow> machine" where
  "hwcap_checks hwcap m0 =
     (let m1 = (if hwcap AND 0x00000004 \<noteq> 0
                then assign mono_hwcap_arm_has_thumb True m0 else m0);
          m2 = (if hwcap AND 0x00000040 \<noteq> 0
                then assign mono_hwcap_arm_has_vfp True m1 else m1);
          m3 = (if hwcap AND 0x00002000 \<noteq> 0
                then assign mono_hwcap_arm_has_vfp3 True m2 else m2);
          m4 = (if hwcap AND 0x00004000 \<noteq> 0
                then assign mono_hwcap_arm_has_vfp3_d16 True m3 else m3)
      in m4)"

definition arch_init_auxv :: "build \<Rightarrow> environment \<Rightarrow> machine \<Rightarrow> error + machine" where
  "arch_init_auxv cfg env m0 =
     (let hwcap = auxv_hwcap env;
          m1 = call Getauxval_AT_HWCAP m0;
          m2 = (if hwcap \<noteq> 0 then hwcap_checks hwcap m1 else m1);
          m3 = call Getauxval_AT_PLATFORM m2
      in case auxv_platform env of
           None \<Rightarrow> Inr m3
         | Some str \<Rightarrow>
             if length str < 1 then Inl Read_out_of_bounds
             else Inr (version_checks cfg (c_char str 1) m3))"

text \<open>Lines 88-104: the CPU subtype.\<close>

definition arch_init_apple :: "build \<Rightarrow> environment \<Rightarrow> machine \<Rightarrow> machine" where
  "arch_init_apple cfg env m0 =
     (let m1 = call Sysctlbyname m0;
          sub_type = hw_cpusubtype env
      in if sub_type = CPU_SUBTYPE_ARM_V5TEJ cfg \<or> sub_type = CPU_SUBTYPE_ARM_XSCALE cfg then
           assign mono_hwcap_arm_is_v5 True m1
         else if sub_type = CPU_SUBTYPE_ARM_V6 cfg then
           assign mono_hwcap_arm_is_v6 True (assign mono_hwcap_arm_is_v5 True m1)
         else if sub_type = CPU_SUBTYPE_ARM_V7 cfg \<or> sub_type = CPU_SUBTYPE_ARM_V7F cfg
                 \<or> sub_type = CPU_SUBTYPE_ARM_V7K cfg then
           assign mono_hwcap_arm_is_v7 True
             (assign mono_hwcap_arm_is_v6 True (assign mono_hwcap_arm_is_v5 True m1))
         else m1)"

text \<open>Lines 111-153: the machine name, when \<^verbatim>\<open>HAVE_SYS_UTSNAME_H\<close> is defined.\<close>

definition armv8_assume_all :: "machine \<Rightarrow> machine" where
  "armv8_assume_all m0 =
     (let m1 = assign mono_hwcap_arm_is_v5 True m0;
          m2 = assign mono_hwcap_arm_is_v6 True m1;
          m3 = assign mono_hwcap_arm_is_v7 True m2;
          m4 = assign mono_hwcap_arm_has_vfp True m3;
          m5 = assign mono_hwcap_arm_has_vfp3 True m4;
          m6 = assign mono_hwcap_arm_has_vfp3_d16 True m5;
          m7 = assign mono_hwcap_arm_has_thumb True m6;
          m8 = assign mono_hwcap_arm_has_thumb2 True m7
      in m8)"

definition uname_check :: "build \<Rightarrow> environment \<Rightarrow> machine \<Rightarrow> error + machine" where
  "uname_check cfg env m0 =
     (if HAVE_SYS_UTSNAME_H cfg then
        (let m1 = call Uname m0
         in case utsname_machine env of
              None \<Rightarrow> Inl Assertion_failed
            | Some machine \<Rightarrow>
                if strncmp machine ''aarch64'' 7 = 0 \<or> strncmp machine ''armv8'' 5 = 0
                then Inr (armv8_assume_all m1)
                else Inr m1)
      else Inr m0)"

text \<open>Lines 162-198: the body of the loop, for one line.\<close>

definition cpuinfo_line :: "build \<Rightarrow> string \<Rightarrow> machine \<Rightarrow> machine" where
  "cpuinfo_line cfg line m0 =
     (if strncmp line ''Processor'' 9 = 0 \<or> strncmp line ''model name'' 10 = 0 then
        (case strstr line ''(v'' of
           Some ver \<Rightarrow> version_checks cfg (c_char ver 2) m0
         | None \<Rightarrow> m0)
      else if strncmp line ''Features'' 8 = 0 then
        (let m1 = (if strstr line ''thumb'' \<noteq> None
                   then assign mono_hwcap_arm_has_thumb True m0 else m0);
             m2 = (if strstr line ''vfp'' \<noteq> None
                   then assign mono_hwcap_arm_has_vfp True m1 else m1);
             m3 = (if strstr line ''vfpv3'' \<noteq> None
                   then assign mono_hwcap_arm_has_vfp3 True m2 else m2);
             m4 = (if strstr line ''vfpv3-d16'' \<noteq> None
                   then assign mono_hwcap_arm_has_vfp3_d16 True m3 else m3)
         in m4)
      else m0)"

text \<open>Line 161: the loop over the lines of the opened file.\<close>

function cpuinfo_lines :: "build \<Rightarrow> string \<Rightarrow> machine \<Rightarrow> machine" where
  "cpuinfo_lines cfg stream m0 =
     (let m1 = call Fgets m0
      in case fgets 512 stream of
           None \<Rightarrow> m1
         | Some (buf, rest) \<Rightarrow> cpuinfo_lines cfg rest (cpuinfo_line cfg (c_str buf) m1))"
  by pat_completeness auto
termination
proof (relation "measure (\<lambda>(cfg, stream, m). length stream)")
  show "wf (measure (\<lambda>(cfg :: build, stream :: string, m :: machine). length stream))"
    by simp
next
  fix cfg :: build and stream :: string and m0 m1 :: machine and x buf rest
  assume "fgets 512 stream = Some x" and "(buf, rest) = x"
  then have ne: "stream \<noteq> []"
    and rest: "rest = drop (length (read_line 511 stream)) stream"
    by (auto simp: fgets_def Let_def split: if_splits)
  from ne have "read_line 511 stream \<noteq> []"
    by (cases stream) (simp_all add: numeral_eq_Suc)
  with ne have "length rest < length stream"
    unfolding rest by (cases "read_line 511 stream") auto
  then show "((cfg, rest, cpuinfo_line cfg (c_str buf) m1), cfg, stream, m0)
      \<in> measure (\<lambda>(cfg, stream, m). length stream)"
    by simp
qed

declare cpuinfo_lines.simps [simp del]

text \<open>Lines 155-202: open the file, scan it, close it.\<close>

definition cpuinfo_scan :: "build \<Rightarrow> environment \<Rightarrow> machine \<Rightarrow> machine" where
  "cpuinfo_scan cfg env m0 =
     (let m1 = call Fopen m0
      in case proc_cpuinfo env of
           None \<Rightarrow> m1
         | Some content \<Rightarrow> call Fclose (cpuinfo_lines cfg content m1))"

definition arch_init_fallback :: "build \<Rightarrow> environment \<Rightarrow> machine \<Rightarrow> error + machine" where
  "arch_init_fallback cfg env m0 =
     (case uname_check cfg env m0 of
        Inl e \<Rightarrow> Inl e
      | Inr m1 \<Rightarrow> Inr (cpuinfo_scan cfg env m1))"

text \<open>Lines 46-204.\<close>

definition mono_hwcap_arch_init :: "build \<Rightarrow> environment \<Rightarrow> machine \<Rightarrow> error + machine" where
  "mono_hwcap_arch_init cfg env m0 =
     (if HAVE_SYS_AUXV_H cfg \<and> \<not> PLATFORM_ANDROID cfg then arch_init_auxv cfg env m0
      else if APPLE cfg then Inr (arch_init_apple cfg env m0)
      else arch_init_fallback cfg env m0)"

subsection \<open>mono_hwcap_print\<close>

text \<open>
  \<^verbatim>\<open>%i\<close> prints an \<^verbatim>\<open>int\<close> in decimal; \<^verbatim>\<open>TRUE\<close> is 1 and \<^verbatim>\<open>FALSE\<close> is 0.
\<close>

function decimal :: "nat \<Rightarrow> string" where
  "decimal n =
     (if n < 10 then [''0123456789'' ! n]
      else decimal (n div 10) @ [''0123456789'' ! (n mod 10)])"
  by pat_completeness auto
termination
  by (relation "measure id") auto

declare decimal.simps [simp del]

definition format_int :: "int \<Rightarrow> string" where
  "format_int i = (if i < 0 then CHR ''-'' # decimal (nat (- i)) else decimal (nat i))"

fun format :: "string \<Rightarrow> int \<Rightarrow> string" where
  "format [] i = []"
| "format (c # cs) i =
     (if c = CHR ''%'' then
        (case cs of
           [] \<Rightarrow> [c]
         | d # ds \<Rightarrow> if d = CHR ''i'' then format_int i @ format ds i else c # format cs i)
      else c # format cs i)"

definition gboolean :: "bool \<Rightarrow> int" where
  "gboolean b = (if b then 1 else 0)"

text \<open>
  The sink \<^verbatim>\<open>FILE *f\<close> is the text written to it so far; a call appends (writes are taken
  to succeed).
\<close>

definition g_fprintf :: "string \<Rightarrow> string \<Rightarrow> bool \<Rightarrow> string" where
  "g_fprintf f fmt b = f @ format fmt (gboolean b)"

text \<open>Lines 206-217.\<close>

definition mono_hwcap_print :: "(flag \<Rightarrow> bool) \<Rightarrow> string \<Rightarrow> string" where
  "mono_hwcap_print g f0 =
     (let f1 = g_fprintf f0 ''mono_hwcap_arm_is_v5 = %i\<newline>'' (g mono_hwcap_arm_is_v5);
          f2 = g_fprintf f1 ''mono_hwcap_arm_is_v6 = %i\<newline>'' (g mono_hwcap_arm_is_v6);
          f3 = g_fprintf f2 ''mono_hwcap_arm_is_v7 = %i\<newline>'' (g mono_hwcap_arm_is_v7);
          f4 = g_fprintf f3 ''mono_hwcap_arm_has_vfp = %i\<newline>'' (g mono_hwcap_arm_has_vfp);
          f5 = g_fprintf f4 ''mono_hwcap_arm_has_vfp3 = %i\<newline>'' (g mono_hwcap_arm_has_vfp3);
          f6 = g_fprintf f5 ''mono_hwcap_arm_has_vfp3_d16 = %i\<newline>''
                 (g mono_hwcap_arm_has_vfp3_d16);
          f7 = g_fprintf f6 ''mono_hwcap_arm_has_thumb = %i\<newline>'' (g mono_hwcap_arm_has_thumb);
          f8 = g_fprintf f7 ''mono_hwcap_arm_has_thumb2 = %i\<newline>''
                 (g mono_hwcap_arm_has_thumb2)
      in f8)"

subsection \<open>Notions used in the statements and proofs\<close>

text \<open>
  The state at process start; a trace in which no assignment stores \<^verbatim>\<open>FALSE\<close>; a step
  that only adds a fixed set of flags to the ones already set and appends fixed events;
  the order \<open>is_v7 \<Rightarrow> is_v6 \<Rightarrow> is_v5\<close> of the architecture-version flags.
\<close>

definition fresh :: machine where
  "fresh = \<lparr>globals = initial_globals, trace = []\<rparr>"

definition true_stores :: "event list \<Rightarrow> bool" where
  "true_stores evs = list_all (\<lambda>e. case e of Store x v \<Rightarrow> v | Call c \<Rightarrow> True) evs"

definition or_step :: "(machine \<Rightarrow> machine) \<Rightarrow> bool" where
  "or_step F \<longleftrightarrow>
     (\<exists>D evs. true_stores evs \<and>
        (\<forall>m. globals (F m) = (\<lambda>x. globals m x \<or> D x) \<and> trace (F m) = trace m @ evs))"

definition arch_version_monotonic :: "(flag \<Rightarrow> bool) \<Rightarrow> bool" where
  "arch_version_monotonic g \<longleftrightarrow>
     (g mono_hwcap_arm_is_v7 \<longrightarrow> g mono_hwcap_arm_is_v6) \<and>
     (g mono_hwcap_arm_is_v6 \<longrightarrow> g mono_hwcap_arm_is_v5)"

subsection \<open>Example builds and environments\<close>

definition android_build :: build where
  "android_build =
     \<lparr>HAVE_SYS_AUXV_H = True, PLATFORM_ANDROID = True, APPLE = False,
      HAVE_SYS_UTSNAME_H = True, char_is_signed = False,
      CPU_SUBTYPE_ARM_V5TEJ = 7, CPU_SUBTYPE_ARM_XSCALE = 8, CPU_SUBTYPE_ARM_V6 = 6,
      CPU_SUBTYPE_ARM_V7 = 9, CPU_SUBTYPE_ARM_V7F = 10, CPU_SUBTYPE_ARM_V7K = 12\<rparr>"

definition armv8_env :: environment where
  "armv8_env =
     \<lparr>auxv_hwcap = 0, auxv_platform = None, hw_cpusubtype = 0,
      utsname_machine = Some ''aarch64'',
      proc_cpuinfo = Some ''Features : thumb\<newline>''\<rparr>"


definition linux_build :: build where
  "linux_build =
     \<lparr>HAVE_SYS_AUXV_H = True, PLATFORM_ANDROID = False, APPLE = False,
      HAVE_SYS_UTSNAME_H = True, char_is_signed = False,
      CPU_SUBTYPE_ARM_V5TEJ = 7, CPU_SUBTYPE_ARM_XSCALE = 8, CPU_SUBTYPE_ARM_V6 = 6,
      CPU_SUBTYPE_ARM_V7 = 9, CPU_SUBTYPE_ARM_V7F = 10, CPU_SUBTYPE_ARM_V7K = 12\<rparr>"

definition vfp_only_env :: environment where
  "vfp_only_env =
     \<lparr>auxv_hwcap = 0x00000040, auxv_platform = None, hw_cpusubtype = 0,
      utsname_machine = None, proc_cpuinfo = None\<rparr>"

definition v7l_env :: environment where
  "v7l_env =
     \<lparr>auxv_hwcap = 0x00006044, auxv_platform = Some ''v7l'', hw_cpusubtype = 0,
      utsname_machine = Some ''armv7l'', proc_cpuinfo = None\<rparr>"

definition armv7_cpuinfo_env :: environment where
  "armv7_cpuinfo_env =
     \<lparr>auxv_hwcap = 0, auxv_platform = None, hw_cpusubtype = 0,
      utsname_machine = Some ''armv7l'',
      proc_cpuinfo = Some (''model name : ARMv7 Processor rev 2 (v7l)\<newline>'' @
                           ''Features : thumb vfp vfpv3\<newline>'')\<rparr>"

definition no_cpuinfo_env :: environment where
  "no_cpuinfo_env =
     \<lparr>auxv_hwcap = 0, auxv_platform = None, hw_cpusubtype = 0,
      utsname_machine = Some ''armv7l'', proc_cpuinfo = None\<rparr>"

definition no_utsname_build :: build where
  "no_utsname_build =
     \<lparr>HAVE_SYS_AUXV_H = False, PLATFORM_ANDROID = False, APPLE = False,
      HAVE_SYS_UTSNAME_H = False, char_is_signed = False,
      CPU_SUBTYPE_ARM_V5TEJ = 7, CPU_SUBTYPE_ARM_XSCALE = 8, CPU_SUBTYPE_ARM_V6 = 6,
      CPU_SUBTYPE_ARM_V7 = 9, CPU_SUBTYPE_ARM_V7F = 10, CPU_SUBTYPE_ARM_V7K = 12\<rparr>"

definition aarch64_no_cpuinfo_env :: environment where
  "aarch64_no_cpuinfo_env =
     \<lparr>auxv_hwcap = 0, auxv_platform = None, hw_cpusubtype = 0,
      utsname_machine = Some ''aarch64'', proc_cpuinfo = None\<rparr>"

section \<open>Facts about the steps\<close>

lemma globals_assign [simp]: "globals (assign x v m) = (globals m)(x := v)"
  by (simp add: assign_def)

lemma trace_assign [simp]: "trace (assign x v m) = trace m @ [Store x v]"
  by (simp add: assign_def)

lemma globals_call [simp]: "globals (call e m) = globals m"
  by (simp add: call_def)

lemma trace_call [simp]: "trace (call e m) = trace m @ [Call e]"
  by (simp add: call_def)

lemma globals_fresh [simp]: "globals fresh x = False"
  by (simp add: fresh_def initial_globals_def)

lemma trace_fresh [simp]: "trace fresh = []"
  by (simp add: fresh_def)

lemma true_stores_simps [simp]:
  "true_stores []"
  "true_stores (Store x v # evs) \<longleftrightarrow> v \<and> true_stores evs"
  "true_stores (Call c # evs) \<longleftrightarrow> true_stores evs"
  "true_stores (evs @ evs') \<longleftrightarrow> true_stores evs \<and> true_stores evs'"
  by (simp_all add: true_stores_def)

lemma true_stores_iff: "true_stores evs \<longleftrightarrow> (\<forall>x. Store x False \<notin> set evs)"
proof (induction evs)
  case Nil
  show ?case by simp
next
  case (Cons e evs)
  then show ?case by (cases e) auto
qed

lemma or_stepI:
  assumes "true_stores evs"
    and "\<And>m. globals (F m) = (\<lambda>x. globals m x \<or> D x)"
    and "\<And>m. trace (F m) = trace m @ evs"
  shows "or_step F"
  unfolding or_step_def using assms by blast

lemma or_step_id: "or_step (\<lambda>m. m)"
  by (rule or_stepI [where evs = "[]" and D = "\<lambda>x. False"]) simp_all

lemma or_step_assign: "or_step (assign x True)"
  by (rule or_stepI [where evs = "[Store x True]" and D = "\<lambda>y. y = x"])
     (auto simp: fun_eq_iff)

lemma or_step_call: "or_step (call e)"
  by (rule or_stepI [where evs = "[Call e]" and D = "\<lambda>x. False"]) simp_all

lemma or_step_comp:
  assumes F: "or_step F" and G: "or_step G"
  shows "or_step (\<lambda>m. G (F m))"
proof -
  from F obtain D1 evs1 where F1: "true_stores evs1"
    and Fg: "\<And>m. globals (F m) = (\<lambda>x. globals m x \<or> D1 x)"
    and Fe: "\<And>m. trace (F m) = trace m @ evs1"
    unfolding or_step_def by blast
  from G obtain D2 evs2 where G1: "true_stores evs2"
    and Gg: "\<And>m. globals (G m) = (\<lambda>x. globals m x \<or> D2 x)"
    and Ge: "\<And>m. trace (G m) = trace m @ evs2"
    unfolding or_step_def by blast
  show ?thesis
    by (rule or_stepI [where evs = "evs1 @ evs2" and D = "\<lambda>x. D1 x \<or> D2 x"])
       (simp_all add: F1 G1 Fg Gg Fe Ge)
qed

lemma or_step_if: "or_step F \<Longrightarrow> or_step (\<lambda>m. if c then F m else m)"
  by (cases c) (simp_all add: or_step_id)

lemma or_step_fresh:
  assumes "or_step F"
  shows "trace (F m) = trace m @ trace (F fresh)"
    and "globals (F m) x \<longleftrightarrow> globals m x \<or> globals (F fresh) x"
    and "true_stores (trace (F fresh))"
proof -
  from assms obtain D evs where t: "true_stores evs"
    and g: "\<And>m. globals (F m) = (\<lambda>x. globals m x \<or> D x)"
    and e: "\<And>m. trace (F m) = trace m @ evs"
    unfolding or_step_def by blast
  show "trace (F m) = trace m @ trace (F fresh)"
    by (simp add: e)
  show "globals (F m) x \<longleftrightarrow> globals m x \<or> globals (F fresh) x"
    by (simp add: g)
  show "true_stores (trace (F fresh))"
    by (simp add: e t)
qed

lemma or_step_version_checks: "or_step (version_checks cfg c)"
proof -
  let ?s5 = "\<lambda>m. if char_value cfg c \<ge> char_value cfg CHR ''5''
                  then assign mono_hwcap_arm_is_v5 True m else m"
  let ?s6 = "\<lambda>m. if char_value cfg c \<ge> char_value cfg CHR ''6''
                  then assign mono_hwcap_arm_is_v6 True m else m"
  let ?s7 = "\<lambda>m. if char_value cfg c \<ge> char_value cfg CHR ''7''
                  then assign mono_hwcap_arm_is_v7 True m else m"
  have "version_checks cfg c = (\<lambda>m. ?s7 (?s6 (?s5 m)))"
    by (simp add: version_checks_def Let_def fun_eq_iff)
  moreover have "or_step (\<lambda>m. ?s7 (?s6 (?s5 m)))"
    by (rule or_step_comp [OF or_step_comp [OF or_step_if or_step_if] or_step_if];
        rule or_step_assign)
  ultimately show ?thesis by simp
qed


lemma or_step_hwcap_checks: "or_step (hwcap_checks hwcap)"
proof -
  let ?s1 = "\<lambda>m. if hwcap AND 0x00000004 \<noteq> 0
                  then assign mono_hwcap_arm_has_thumb True m else m"
  let ?s2 = "\<lambda>m. if hwcap AND 0x00000040 \<noteq> 0
                  then assign mono_hwcap_arm_has_vfp True m else m"
  let ?s3 = "\<lambda>m. if hwcap AND 0x00002000 \<noteq> 0
                  then assign mono_hwcap_arm_has_vfp3 True m else m"
  let ?s4 = "\<lambda>m. if hwcap AND 0x00004000 \<noteq> 0
                  then assign mono_hwcap_arm_has_vfp3_d16 True m else m"
  have "hwcap_checks hwcap = (\<lambda>m. ?s4 (?s3 (?s2 (?s1 m))))"
    by (simp add: hwcap_checks_def Let_def fun_eq_iff)
  moreover have "or_step (\<lambda>m. ?s4 (?s3 (?s2 (?s1 m))))"
    by (rule or_step_comp [OF or_step_comp [OF or_step_comp [OF or_step_if or_step_if]
          or_step_if] or_step_if]; rule or_step_assign)
  ultimately show ?thesis by simp
qed

lemma or_step_armv8_assume_all: "or_step armv8_assume_all"
proof -
  have "armv8_assume_all = (\<lambda>m. assign mono_hwcap_arm_has_thumb2 True
      (assign mono_hwcap_arm_has_thumb True (assign mono_hwcap_arm_has_vfp3_d16 True
      (assign mono_hwcap_arm_has_vfp3 True (assign mono_hwcap_arm_has_vfp True
      (assign mono_hwcap_arm_is_v7 True (assign mono_hwcap_arm_is_v6 True
      (assign mono_hwcap_arm_is_v5 True m))))))))"
    by (simp add: armv8_assume_all_def Let_def fun_eq_iff)
  moreover have "or_step (\<lambda>m. assign mono_hwcap_arm_has_thumb2 True
      (assign mono_hwcap_arm_has_thumb True (assign mono_hwcap_arm_has_vfp3_d16 True
      (assign mono_hwcap_arm_has_vfp3 True (assign mono_hwcap_arm_has_vfp True
      (assign mono_hwcap_arm_is_v7 True (assign mono_hwcap_arm_is_v6 True
      (assign mono_hwcap_arm_is_v5 True m))))))))"
    by (rule or_step_comp [OF or_step_comp [OF or_step_comp [OF or_step_comp
          [OF or_step_comp [OF or_step_comp [OF or_step_comp]]]]]]; rule or_step_assign)
  ultimately show ?thesis by simp
qed

lemma or_step_arch_init_apple: "or_step (arch_init_apple cfg env)"
proof -
  let ?v5 = "assign mono_hwcap_arm_is_v5 True"
  let ?v6 = "assign mono_hwcap_arm_is_v6 True"
  let ?v7 = "assign mono_hwcap_arm_is_v7 True"
  have a: "or_step (\<lambda>m. ?v5 (call Sysctlbyname m))"
    by (rule or_step_comp [OF or_step_call or_step_assign])
  have b: "or_step (\<lambda>m. ?v6 (?v5 (call Sysctlbyname m)))"
    by (rule or_step_comp [OF a or_step_assign])
  have c: "or_step (\<lambda>m. ?v7 (?v6 (?v5 (call Sysctlbyname m))))"
    by (rule or_step_comp [OF b or_step_assign])
  have d: "or_step (\<lambda>m. call Sysctlbyname m)"
    by (rule or_step_call)
  let ?sub = "hw_cpusubtype env"
  consider (v5) "?sub = CPU_SUBTYPE_ARM_V5TEJ cfg \<or> ?sub = CPU_SUBTYPE_ARM_XSCALE cfg"
    | (v6) "\<not> (?sub = CPU_SUBTYPE_ARM_V5TEJ cfg \<or> ?sub = CPU_SUBTYPE_ARM_XSCALE cfg)"
        "?sub = CPU_SUBTYPE_ARM_V6 cfg"
    | (v7) "\<not> (?sub = CPU_SUBTYPE_ARM_V5TEJ cfg \<or> ?sub = CPU_SUBTYPE_ARM_XSCALE cfg)"
        "?sub \<noteq> CPU_SUBTYPE_ARM_V6 cfg"
        "?sub = CPU_SUBTYPE_ARM_V7 cfg \<or> ?sub = CPU_SUBTYPE_ARM_V7F cfg
           \<or> ?sub = CPU_SUBTYPE_ARM_V7K cfg"
    | (none) "\<not> (?sub = CPU_SUBTYPE_ARM_V5TEJ cfg \<or> ?sub = CPU_SUBTYPE_ARM_XSCALE cfg)"
        "?sub \<noteq> CPU_SUBTYPE_ARM_V6 cfg"
        "\<not> (?sub = CPU_SUBTYPE_ARM_V7 cfg \<or> ?sub = CPU_SUBTYPE_ARM_V7F cfg
           \<or> ?sub = CPU_SUBTYPE_ARM_V7K cfg)"
    by blast
  then show ?thesis
  proof cases
    case v5
    then have "arch_init_apple cfg env = (\<lambda>m. ?v5 (call Sysctlbyname m))"
      unfolding arch_init_apple_def Let_def by (intro ext) simp
    with a show ?thesis by simp
  next
    case v6
    then have "arch_init_apple cfg env = (\<lambda>m. ?v6 (?v5 (call Sysctlbyname m)))"
      unfolding arch_init_apple_def Let_def by (intro ext) simp
    with b show ?thesis by simp
  next
    case v7
    then have "arch_init_apple cfg env = (\<lambda>m. ?v7 (?v6 (?v5 (call Sysctlbyname m))))"
      unfolding arch_init_apple_def Let_def by (intro ext) simp
    with c show ?thesis by simp
  next
    case none
    then have "arch_init_apple cfg env = (\<lambda>m. call Sysctlbyname m)"
      unfolding arch_init_apple_def Let_def by (intro ext) simp
    with d show ?thesis by simp
  qed
qed

lemma or_step_cpuinfo_line: "or_step (cpuinfo_line cfg line)"
proof -
  let ?s1 = "\<lambda>m. if strstr line ''thumb'' \<noteq> None
                  then assign mono_hwcap_arm_has_thumb True m else m"
  let ?s2 = "\<lambda>m. if strstr line ''vfp'' \<noteq> None
                  then assign mono_hwcap_arm_has_vfp True m else m"
  let ?s3 = "\<lambda>m. if strstr line ''vfpv3'' \<noteq> None
                  then assign mono_hwcap_arm_has_vfp3 True m else m"
  let ?s4 = "\<lambda>m. if strstr line ''vfpv3-d16'' \<noteq> None
                  then assign mono_hwcap_arm_has_vfp3_d16 True m else m"
  have f: "or_step (\<lambda>m. ?s4 (?s3 (?s2 (?s1 m))))"
    by (rule or_step_comp [OF or_step_comp [OF or_step_comp [OF or_step_if or_step_if]
          or_step_if] or_step_if]; rule or_step_assign)
  show ?thesis
  proof (cases "strncmp line ''Processor'' 9 = 0 \<or> strncmp line ''model name'' 10 = 0")
    case True
    show ?thesis
    proof (cases "strstr line ''(v''")
      case None
      with True have "cpuinfo_line cfg line = (\<lambda>m. m)"
        by (simp add: cpuinfo_line_def fun_eq_iff)
      then show ?thesis by (simp add: or_step_id)
    next
      case (Some ver)
      with True have "cpuinfo_line cfg line = version_checks cfg (c_char ver 2)"
        by (simp add: cpuinfo_line_def fun_eq_iff)
      then show ?thesis by (simp add: or_step_version_checks)
    qed
  next
    case False
    show ?thesis
    proof (cases "strncmp line ''Features'' 8 = 0")
      case True
      with False have "cpuinfo_line cfg line = (\<lambda>m. ?s4 (?s3 (?s2 (?s1 m))))"
        unfolding cpuinfo_line_def Let_def by (intro ext) simp
      with f show ?thesis by simp
    next
      case no: False
      with False have "cpuinfo_line cfg line = (\<lambda>m. m)"
        by (simp add: cpuinfo_line_def fun_eq_iff)
      then show ?thesis by (simp add: or_step_id)
    qed
  qed
qed

lemma cpuinfo_lines_unfold:
  "cpuinfo_lines cfg stream =
     (case fgets 512 stream of
        None \<Rightarrow> call Fgets
      | Some (buf, rest) \<Rightarrow>
          (\<lambda>m. cpuinfo_lines cfg rest (cpuinfo_line cfg (c_str buf) (call Fgets m))))"
  by (rule ext) (simp add: cpuinfo_lines.simps [of cfg stream] split: option.splits)

lemma fgets_shorter:
  assumes "fgets 512 stream = Some (buf, rest)"
  shows "length rest < length stream"
proof -
  from assms have ne: "stream \<noteq> []"
    and rest: "rest = drop (length (read_line 511 stream)) stream"
    by (auto simp: fgets_def Let_def split: if_splits)
  from ne have "read_line 511 stream \<noteq> []"
    by (cases stream) (simp_all add: numeral_eq_Suc)
  with ne show ?thesis
    unfolding rest by (cases "read_line 511 stream") auto
qed

lemma or_step_cpuinfo_lines: "or_step (cpuinfo_lines cfg stream)"
proof (induction stream rule: length_induct)
  case (1 stream)
  show ?case
  proof (cases "fgets 512 stream")
    case None
    then show ?thesis
      by (simp add: cpuinfo_lines_unfold [of cfg stream] or_step_call)
  next
    case (Some p)
    obtain buf rest where p: "p = (buf, rest)"
      by (cases p)
    from Some p have "length rest < length stream"
      by (simp add: fgets_shorter)
    with "1" have "or_step (cpuinfo_lines cfg rest)"
      by blast
    then have "or_step (\<lambda>m. cpuinfo_lines cfg rest (cpuinfo_line cfg (c_str buf) (call Fgets m)))"
      by (rule or_step_comp [OF or_step_comp [OF or_step_call or_step_cpuinfo_line]])
    then show ?thesis
      by (simp add: cpuinfo_lines_unfold [of cfg stream] Some p)
  qed
qed

lemma or_step_cpuinfo_scan: "or_step (cpuinfo_scan cfg env)"
proof (cases "proc_cpuinfo env")
  case None
  then have "cpuinfo_scan cfg env = call Fopen"
    by (simp add: cpuinfo_scan_def fun_eq_iff)
  then show ?thesis
    by (simp add: or_step_call)
next
  case (Some content)
  then have "cpuinfo_scan cfg env =
      (\<lambda>m. call Fclose (cpuinfo_lines cfg content (call Fopen m)))"
    by (simp add: cpuinfo_scan_def fun_eq_iff)
  moreover have "or_step (\<lambda>m. call Fclose (cpuinfo_lines cfg content (call Fopen m)))"
    by (rule or_step_comp [OF or_step_comp [OF or_step_call or_step_cpuinfo_lines]
          or_step_call])
  ultimately show ?thesis by simp
qed

lemma arch_init_cases:
  "(\<exists>e. \<forall>m. mono_hwcap_arch_init cfg env m = Inl e) \<or>
   (\<exists>F. or_step F \<and> (\<forall>m. mono_hwcap_arch_init cfg env m = Inr (F m)))"
proof -
  consider (auxv) "HAVE_SYS_AUXV_H cfg \<and> \<not> PLATFORM_ANDROID cfg"
    | (apple) "\<not> (HAVE_SYS_AUXV_H cfg \<and> \<not> PLATFORM_ANDROID cfg)" "APPLE cfg"
    | (fallback) "\<not> (HAVE_SYS_AUXV_H cfg \<and> \<not> PLATFORM_ANDROID cfg)" "\<not> APPLE cfg"
    by blast
  then show ?thesis
  proof cases
    case auxv
    let ?pre = "\<lambda>m. call Getauxval_AT_PLATFORM
      ((if auxv_hwcap env \<noteq> 0 then hwcap_checks (auxv_hwcap env) (call Getauxval_AT_HWCAP m)
        else call Getauxval_AT_HWCAP m))"
    have "or_step (\<lambda>m. if auxv_hwcap env \<noteq> 0
        then hwcap_checks (auxv_hwcap env) (call Getauxval_AT_HWCAP m)
        else call Getauxval_AT_HWCAP m)"
      by (cases "auxv_hwcap env \<noteq> 0")
         (simp_all add: or_step_call or_step_comp [OF or_step_call or_step_hwcap_checks])
    then have pre: "or_step ?pre"
      by (rule or_step_comp [OF _ or_step_call])
    show ?thesis
    proof (cases "auxv_platform env")
      case None
      with auxv have "\<forall>m. mono_hwcap_arch_init cfg env m = Inr (?pre m)"
        by (simp add: mono_hwcap_arch_init_def arch_init_auxv_def Let_def)
      with pre show ?thesis by blast
    next
      case (Some str)
      show ?thesis
      proof (cases "length str < 1")
        case True
        with auxv Some have "\<forall>m. mono_hwcap_arch_init cfg env m = Inl Read_out_of_bounds"
          by (simp add: mono_hwcap_arch_init_def arch_init_auxv_def Let_def)
        then show ?thesis by blast
      next
        case False
        with auxv Some have "\<forall>m. mono_hwcap_arch_init cfg env m =
            Inr (version_checks cfg (c_char str 1) (?pre m))"
          by (simp add: mono_hwcap_arch_init_def arch_init_auxv_def Let_def)
        moreover have "or_step (\<lambda>m. version_checks cfg (c_char str 1) (?pre m))"
          by (rule or_step_comp [OF pre or_step_version_checks])
        ultimately show ?thesis by blast
      qed
    qed
  next
    case apple
    then have "\<forall>m. mono_hwcap_arch_init cfg env m = Inr (arch_init_apple cfg env m)"
      by (auto simp: mono_hwcap_arch_init_def)
    with or_step_arch_init_apple show ?thesis by blast
  next
    case fallback
    then have init: "mono_hwcap_arch_init cfg env m = arch_init_fallback cfg env m" for m
      by (auto simp: mono_hwcap_arch_init_def)
    have "(\<exists>e. \<forall>m. uname_check cfg env m = Inl e) \<or>
          (\<exists>F. or_step F \<and> (\<forall>m. uname_check cfg env m = Inr (F m)))"
    proof (cases "HAVE_SYS_UTSNAME_H cfg")
      case False
      then have "\<forall>m. uname_check cfg env m = Inr ((\<lambda>m. m) m)"
        by (simp add: uname_check_def)
      with or_step_id show ?thesis by blast
    next
      case True
      show ?thesis
      proof (cases "utsname_machine env")
        case None
        with True have "\<forall>m. uname_check cfg env m = Inl Assertion_failed"
          by (simp add: uname_check_def)
        then show ?thesis by blast
      next
        case (Some machine)
        show ?thesis
        proof (cases "strncmp machine ''aarch64'' 7 = 0 \<or> strncmp machine ''armv8'' 5 = 0")
          case yes: True
          with True Some have
            "\<forall>m. uname_check cfg env m = Inr ((\<lambda>m. armv8_assume_all (call Uname m)) m)"
            by (simp add: uname_check_def)
          with or_step_comp [OF or_step_call or_step_armv8_assume_all] show ?thesis
            by blast
        next
          case no: False
          with True Some have "\<forall>m. uname_check cfg env m = Inr (call Uname m)"
            by (simp add: uname_check_def)
          with or_step_call show ?thesis by blast
        qed
      qed
    qed
    then show ?thesis
    proof (elim disjE exE conjE)
      fix e assume "\<forall>m. uname_check cfg env m = Inl e"
      then have "\<forall>m. mono_hwcap_arch_init cfg env m = Inl e"
        by (simp add: init arch_init_fallback_def)
      then show ?thesis by blast
    next
      fix F assume F: "or_step F" and "\<forall>m. uname_check cfg env m = Inr (F m)"
      then have "\<forall>m. mono_hwcap_arch_init cfg env m = Inr (cpuinfo_scan cfg env (F m))"
        by (simp add: init arch_init_fallback_def)
      with or_step_comp [OF F or_step_cpuinfo_scan] show ?thesis by blast
    qed
  qed
qed


lemma read_line_eval:
  "read_line k [] = []"
  "read_line k (c # cs) =
     (if k = 0 then [] else if c = CHR ''\<newline>'' then [c] else c # read_line (k - 1) cs)"
  by (cases k; simp)+

lemma strncmp_eval:
  "strncmp [] [] n = 0"
  "strncmp [] (y # ys) n = (if n = 0 then 0 else - of_char y)"
  "strncmp (x # xs) [] n = (if n = 0 then 0 else of_char x)"
  "strncmp (x # xs) (y # ys) n =
     (if n = 0 then 0 else if x = y then strncmp xs ys (n - 1) else of_char x - of_char y)"
  by (cases n; simp)+

lemmas run_eval =
  mono_hwcap_arch_init_def arch_init_fallback_def arch_init_auxv_def arch_init_apple_def
  uname_check_def cpuinfo_scan_def cpuinfo_lines.simps cpuinfo_line_def fgets_def
  armv8_assume_all_def version_checks_def hwcap_checks_def c_str_def c_char_def
  char_value_def read_line_eval strncmp_eval Let_def


lemma char_value_digits [simp]:
  "char_value cfg CHR ''5'' = 53"
  "char_value cfg CHR ''6'' = 54"
  "char_value cfg CHR ''7'' = 55"
  by (simp_all add: char_value_def)

lemma globals_version_checks:
  "globals (version_checks cfg c m) =
     (\<lambda>x. globals m x
        \<or> x = mono_hwcap_arm_is_v5 \<and> 53 \<le> char_value cfg c
        \<or> x = mono_hwcap_arm_is_v6 \<and> 54 \<le> char_value cfg c
        \<or> x = mono_hwcap_arm_is_v7 \<and> 55 \<le> char_value cfg c)"
  by (auto simp: version_checks_def Let_def fun_eq_iff)

lemma globals_hwcap_checks:
  "globals (hwcap_checks hwcap m) =
     (\<lambda>x. globals m x
        \<or> x = mono_hwcap_arm_has_thumb \<and> hwcap AND 0x00000004 \<noteq> 0
        \<or> x = mono_hwcap_arm_has_vfp \<and> hwcap AND 0x00000040 \<noteq> 0
        \<or> x = mono_hwcap_arm_has_vfp3 \<and> hwcap AND 0x00002000 \<noteq> 0
        \<or> x = mono_hwcap_arm_has_vfp3_d16 \<and> hwcap AND 0x00004000 \<noteq> 0)"
  by (auto simp: hwcap_checks_def Let_def fun_eq_iff)

lemma globals_armv8_assume_all: "globals (armv8_assume_all m) = (\<lambda>x. True)"
proof
  fix x
  show "globals (armv8_assume_all m) x = True"
    by (cases x) (simp_all add: armv8_assume_all_def Let_def)
qed

lemma version_order_version_checks:
  "arch_version_monotonic (globals m) \<Longrightarrow>
     arch_version_monotonic (globals (version_checks cfg c m))"
  by (auto simp: arch_version_monotonic_def globals_version_checks)

lemma version_order_hwcap_checks:
  "arch_version_monotonic (globals m) \<Longrightarrow>
     arch_version_monotonic (globals (hwcap_checks hwcap m))"
  by (simp add: arch_version_monotonic_def globals_hwcap_checks)

lemma version_order_call:
  "arch_version_monotonic (globals m) \<Longrightarrow> arch_version_monotonic (globals (call e m))"
  by simp

lemma version_order_arch_init_apple:
  "arch_version_monotonic (globals m) \<Longrightarrow>
     arch_version_monotonic (globals (arch_init_apple cfg env m))"
  by (simp add: arch_version_monotonic_def arch_init_apple_def Let_def)

lemma version_order_cpuinfo_line:
  assumes "arch_version_monotonic (globals m)"
  shows "arch_version_monotonic (globals (cpuinfo_line cfg line m))"
proof (cases "strncmp line ''Processor'' 9 = 0 \<or> strncmp line ''model name'' 10 = 0")
  case True
  with assms show ?thesis
    by (auto simp: cpuinfo_line_def version_order_version_checks split: option.splits)
next
  case False
  then have "globals (cpuinfo_line cfg line m) x = globals m x"
    if "x \<in> {mono_hwcap_arm_is_v5, mono_hwcap_arm_is_v6, mono_hwcap_arm_is_v7}" for x
    using that by (auto simp: cpuinfo_line_def Let_def)
  with assms show ?thesis
    by (simp add: arch_version_monotonic_def)
qed

lemma version_order_cpuinfo_lines:
  "arch_version_monotonic (globals m) \<Longrightarrow>
     arch_version_monotonic (globals (cpuinfo_lines cfg stream m))"
proof (induction stream arbitrary: m rule: length_induct)
  case (1 stream)
  show ?case
  proof (cases "fgets 512 stream")
    case None
    with "1.prems" show ?thesis
      by (simp add: cpuinfo_lines_unfold [of cfg stream])
  next
    case (Some p)
    obtain buf rest where p: "p = (buf, rest)"
      by (cases p)
    from Some p have less: "length rest < length stream"
      by (simp add: fgets_shorter)
    have "arch_version_monotonic (globals (cpuinfo_line cfg (c_str buf) (call Fgets m)))"
      using "1.prems" by (intro version_order_cpuinfo_line version_order_call)
    with "1.IH" less have "arch_version_monotonic
        (globals (cpuinfo_lines cfg rest (cpuinfo_line cfg (c_str buf) (call Fgets m))))"
      by blast
    then show ?thesis
      by (simp add: cpuinfo_lines_unfold [of cfg stream] Some p)
  qed
qed

lemma version_order_cpuinfo_scan:
  "arch_version_monotonic (globals m) \<Longrightarrow>
     arch_version_monotonic (globals (cpuinfo_scan cfg env m))"
  by (simp add: cpuinfo_scan_def Let_def version_order_cpuinfo_lines split: option.splits)

lemma version_order_uname_check:
  "arch_version_monotonic (globals m) \<Longrightarrow> uname_check cfg env m = Inr m' \<Longrightarrow>
     arch_version_monotonic (globals m')"
  by (auto simp: uname_check_def Let_def globals_armv8_assume_all arch_version_monotonic_def
      split: if_splits option.splits)

lemma version_order_arch_init_auxv:
  "arch_version_monotonic (globals m) \<Longrightarrow> arch_init_auxv cfg env m = Inr m' \<Longrightarrow>
     arch_version_monotonic (globals m')"
  by (auto simp: arch_init_auxv_def Let_def version_order_version_checks
      version_order_hwcap_checks split: if_splits option.splits)

lemma strncmp_literal:
  "CHR 0x00 \<notin> set lit \<Longrightarrow> strncmp s lit (length lit) = 0 \<longleftrightarrow> prefix lit s"
proof (induction lit arbitrary: s)
  case Nil
  show ?case by simp
next
  case (Cons y ys)
  then have y: "y \<noteq> CHR 0x00" and ys: "CHR 0x00 \<notin> set ys"
    by auto
  have "(of_char y :: int) = of_char CHR 0x00 \<longleftrightarrow> y = CHR 0x00"
    by (rule of_char_eq_iff)
  with y have ny: "(of_char y :: int) \<noteq> 0"
    by simp
  show ?case
  proof (cases s)
    case Nil
    with ny show ?thesis by simp
  next
    case (Cons x xs)
    have "(of_char x :: int) - of_char y = 0 \<longleftrightarrow> x = y"
      by simp
    with Cons Cons.IH [OF ys, of xs] show ?thesis
      by auto
  qed
qed

lemma strncmp_literals:
  "strncmp s ''aarch64'' 7 = 0 \<longleftrightarrow> prefix ''aarch64'' s"
  "strncmp s ''armv8'' 5 = 0 \<longleftrightarrow> prefix ''armv8'' s"
  "strncmp s ''Processor'' 9 = 0 \<longleftrightarrow> prefix ''Processor'' s"
  "strncmp s ''model name'' 10 = 0 \<longleftrightarrow> prefix ''model name'' s"
  "strncmp s ''Features'' 8 = 0 \<longleftrightarrow> prefix ''Features'' s"
proof -
  have len: "length ''aarch64'' = 7" "length ''armv8'' = 5" "length ''Processor'' = 9"
    "length ''model name'' = 10" "length ''Features'' = 8"
    by simp_all
  show "strncmp s ''aarch64'' 7 = 0 \<longleftrightarrow> prefix ''aarch64'' s"
    using strncmp_literal [of "''aarch64''" s] unfolding len by simp
  show "strncmp s ''armv8'' 5 = 0 \<longleftrightarrow> prefix ''armv8'' s"
    using strncmp_literal [of "''armv8''" s] unfolding len by simp
  show "strncmp s ''Processor'' 9 = 0 \<longleftrightarrow> prefix ''Processor'' s"
    using strncmp_literal [of "''Processor''" s] unfolding len by simp
  show "strncmp s ''model name'' 10 = 0 \<longleftrightarrow> prefix ''model name'' s"
    using strncmp_literal [of "''model name''" s] unfolding len by simp
  show "strncmp s ''Features'' 8 = 0 \<longleftrightarrow> prefix ''Features'' s"
    using strncmp_literal [of "''Features''" s] unfolding len by simp
qed


lemma uname_check_cases:
  assumes "uname_check cfg env m = Inr m1"
  shows "HAVE_SYS_UTSNAME_H cfg \<and>
           (\<exists>machine. utsname_machine env = Some machine \<and>
              (prefix ''aarch64'' machine \<or> prefix ''armv8'' machine)) \<and>
           m1 = armv8_assume_all (call Uname m)
         \<or> HAVE_SYS_UTSNAME_H cfg \<and>
           (\<exists>machine. utsname_machine env = Some machine \<and>
              \<not> (prefix ''aarch64'' machine \<or> prefix ''armv8'' machine)) \<and>
           m1 = call Uname m
         \<or> \<not> HAVE_SYS_UTSNAME_H cfg \<and> m1 = m"
  using assms
  by (auto simp: uname_check_def Let_def strncmp_literals split: if_splits option.splits)

lemma format_int_gboolean: "format_int (gboolean b) = (if b then ''1'' else ''0'')"
  by (simp add: format_int_def gboolean_def decimal.simps)

lemma no_newline_in_digit [simp]:
  "filter (\<lambda>c. c = CHR ''\<newline>'') (if b then ''1'' else ''0'') = []"
  by simp

lemma read_line_length: "length (read_line k cs) \<le> length cs"
  by (induction k cs rule: read_line.induct) auto

lemma read_line_whole_line:
  "CHR ''\<newline>'' \<notin> set l \<Longrightarrow> length l < k \<Longrightarrow>
     read_line k (l @ CHR ''\<newline>'' # post) = l @ [CHR ''\<newline>'']"
proof (induction l arbitrary: k)
  case Nil
  then show ?case by (cases k) auto
next
  case (Cons c cs)
  then show ?case by (cases k) auto
qed

lemma read_line_within:
  "pre \<noteq> [] \<Longrightarrow> last pre = CHR ''\<newline>'' \<Longrightarrow>
     read_line k (pre @ rest) = read_line k pre"
proof (induction pre arbitrary: k)
  case Nil
  then show ?case by simp
next
  case (Cons c cs)
  show ?case
  proof (cases k)
    case 0
    then show ?thesis by simp
  next
    case (Suc k')
    show ?thesis
    proof (cases "c = CHR ''\<newline>''")
      case True
      with Suc show ?thesis by simp
    next
      case False
      with Cons.prems have "cs \<noteq> []" and "last cs = CHR ''\<newline>''"
        by (auto split: if_splits)
      then have "read_line k' (cs @ rest) = read_line k' cs"
        by (rule Cons.IH)
      with Suc False show ?thesis by simp
    qed
  qed
qed

lemma fgets_line:
  assumes "CHR ''\<newline>'' \<notin> set l" and "length l < 511"
  shows "fgets 512 (l @ CHR ''\<newline>'' # post) = Some (l @ [CHR ''\<newline>''], post)"
  using read_line_whole_line [OF assms, of post]
  by (simp add: fgets_def Let_def)

lemma fgets_within:
  assumes "pre \<noteq> []" and "last pre = CHR ''\<newline>''"
  obtains buf pre' where "fgets 512 pre = Some (buf, pre')"
    and "fgets 512 (pre @ rest) = Some (buf, pre' @ rest)"
    and "length pre' < length pre"
    and "pre' = [] \<or> last pre' = CHR ''\<newline>''"
proof -
  let ?buf = "read_line 511 pre"
  let ?pre' = "drop (length ?buf) pre"
  have len: "length ?buf \<le> length pre"
    by (rule read_line_length)
  from assms(1) have ne: "?buf \<noteq> []"
    by (cases pre) (simp_all add: numeral_eq_Suc)
  have 1: "fgets 512 pre = Some (?buf, ?pre')"
    using assms(1) by (simp add: fgets_def Let_def)
  have 2: "fgets 512 (pre @ rest) = Some (?buf, ?pre' @ rest)"
    using assms len by (simp add: fgets_def Let_def read_line_within)
  have 3: "length ?pre' < length pre"
    using ne assms(1) by (cases ?buf) auto
  have 4: "?pre' = [] \<or> last ?pre' = CHR ''\<newline>''"
    using assms(2) by (cases "length ?buf < length pre") (simp_all add: last_drop)
  from 1 2 3 4 show thesis
    by (rule that)
qed

lemma globals_cpuinfo_lines:
  "globals (cpuinfo_lines cfg stream m) x \<longleftrightarrow>
     globals m x \<or> globals (cpuinfo_lines cfg stream fresh) x"
  by (rule or_step_fresh(2) [OF or_step_cpuinfo_lines])

lemma globals_cpuinfo_line:
  "globals (cpuinfo_line cfg line m) x \<longleftrightarrow>
     globals m x \<or> globals (cpuinfo_line cfg line fresh) x"
  by (rule or_step_fresh(2) [OF or_step_cpuinfo_line])

lemma cpuinfo_lines_Nil [simp]: "cpuinfo_lines cfg [] m = call Fgets m"
  by (simp add: cpuinfo_lines_unfold [of cfg "[]"] fgets_def)

lemma globals_cpuinfo_lines_append:
  assumes "pre = [] \<or> last pre = CHR ''\<newline>''"
  shows "globals (cpuinfo_lines cfg (pre @ rest) m) x \<longleftrightarrow>
           globals (cpuinfo_lines cfg pre m) x \<or> globals (cpuinfo_lines cfg rest fresh) x"
  using assms
proof (induction pre arbitrary: m rule: length_induct)
  case (1 pre)
  show ?case
  proof (cases "pre = []")
    case True
    then show ?thesis
      using globals_cpuinfo_lines [of cfg rest m x] by simp
  next
    case False
    with "1.prems" have last: "last pre = CHR ''\<newline>''"
      by simp
    from False last obtain buf pre' where a: "fgets 512 pre = Some (buf, pre')"
      and b: "fgets 512 (pre @ rest) = Some (buf, pre' @ rest)"
      and c: "length pre' < length pre"
      and d: "pre' = [] \<or> last pre' = CHR ''\<newline>''"
      by (rule fgets_within)
    let ?M = "cpuinfo_line cfg (c_str buf) (call Fgets m)"
    from "1.IH" c d have
      "globals (cpuinfo_lines cfg (pre' @ rest) ?M) x \<longleftrightarrow>
         globals (cpuinfo_lines cfg pre' ?M) x \<or> globals (cpuinfo_lines cfg rest fresh) x"
      by blast
    then show ?thesis
      by (simp add: cpuinfo_lines_unfold [of cfg pre] cpuinfo_lines_unfold [of cfg "pre @ rest"]
          a b)
  qed
qed

lemma globals_cpuinfo_lines_one:
  assumes "CHR ''\<newline>'' \<notin> set l" and "length l < 511"
  shows "globals (cpuinfo_lines cfg (l @ [CHR ''\<newline>'']) fresh) x \<longleftrightarrow>
           globals (cpuinfo_line cfg (c_str (l @ [CHR ''\<newline>''])) fresh) x"
  using fgets_line [OF assms, of "[]"]
    globals_cpuinfo_line [of cfg "c_str (l @ [CHR ''\<newline>''])" "call Fgets fresh" x]
  by (simp add: cpuinfo_lines_unfold [of cfg "l @ [CHR ''\<newline>'']"])

lemma line_contribution_newline:
  assumes pre: "pre = [] \<or> last pre = CHR ''\<newline>''"
    and l: "CHR ''\<newline>'' \<notin> set l" "length l < 511"
  shows "globals (cpuinfo_lines cfg (pre @ l @ CHR ''\<newline>'' # post) m) x \<longleftrightarrow>
           globals m x \<or> globals (cpuinfo_lines cfg (pre @ post) fresh) x
           \<or> globals (cpuinfo_line cfg (c_str (l @ [CHR ''\<newline>''])) fresh) x"
proof -
  let ?D = "\<lambda>s. globals (cpuinfo_lines cfg s fresh) x"
  let ?chunk = "l @ [CHR ''\<newline>'']"
  have "?D (pre @ ?chunk @ post) \<longleftrightarrow> ?D pre \<or> ?D (?chunk @ post)"
    using globals_cpuinfo_lines_append [OF pre, of cfg "?chunk @ post" fresh x]
      globals_cpuinfo_lines [of cfg "?chunk @ post" fresh x]
    by simp
  moreover have "?D (?chunk @ post) \<longleftrightarrow> ?D ?chunk \<or> ?D post"
    by (rule globals_cpuinfo_lines_append) simp
  moreover have "?D (pre @ post) \<longleftrightarrow> ?D pre \<or> ?D post"
    using pre by (rule globals_cpuinfo_lines_append)
  moreover have "?D ?chunk \<longleftrightarrow> globals (cpuinfo_line cfg (c_str ?chunk) fresh) x"
    using l by (rule globals_cpuinfo_lines_one)
  ultimately have "?D (pre @ ?chunk @ post) \<longleftrightarrow>
      ?D (pre @ post) \<or> globals (cpuinfo_line cfg (c_str ?chunk) fresh) x"
    by blast
  then show ?thesis
    using globals_cpuinfo_lines [of cfg "pre @ l @ CHR ''\<newline>'' # post" m x]
    by simp
qed

lemma read_line_last_line:
  "CHR ''\<newline>'' \<notin> set l \<Longrightarrow> length l \<le> k \<Longrightarrow> read_line k l = l"
proof (induction l arbitrary: k)
  case Nil
  then show ?case by (cases k) auto
next
  case (Cons c cs)
  then show ?case by (cases k) auto
qed

lemma fgets_last_line:
  assumes "l \<noteq> []" and "CHR ''\<newline>'' \<notin> set l" and "length l < 511"
  shows "fgets 512 l = Some (l, [])"
  using assms read_line_last_line [of l 511]
  by (simp add: fgets_def Let_def)

lemma globals_cpuinfo_lines_last:
  assumes "l \<noteq> []" and "CHR ''\<newline>'' \<notin> set l" and "length l < 511"
  shows "globals (cpuinfo_lines cfg l fresh) x \<longleftrightarrow>
           globals (cpuinfo_line cfg (c_str l) fresh) x"
  using fgets_last_line [OF assms]
    globals_cpuinfo_line [of cfg "c_str l" "call Fgets fresh" x]
  by (simp add: cpuinfo_lines_unfold [of cfg l])

lemma line_contribution:
  assumes pre: "pre = [] \<or> last pre = CHR ''\<newline>''"
    and l: "l \<noteq> []" "CHR ''\<newline>'' \<notin> set l" "length l < 511"
    and rest: "rest = [] \<or> hd rest = CHR ''\<newline>''"
  shows "globals (cpuinfo_lines cfg (pre @ l @ rest) m) x \<longleftrightarrow>
           globals m x \<or> globals (cpuinfo_lines cfg (pre @ tl rest) fresh) x
           \<or> globals (cpuinfo_line cfg (c_str (l @ take 1 rest)) fresh) x"
proof (cases rest)
  case Nil
  let ?D = "\<lambda>s. globals (cpuinfo_lines cfg s fresh) x"
  have "?D (pre @ l) \<longleftrightarrow> ?D pre \<or> ?D l"
    using globals_cpuinfo_lines_append [OF pre, of cfg l fresh x]
      globals_cpuinfo_lines [of cfg l fresh x]
    by simp
  moreover have "?D l \<longleftrightarrow> globals (cpuinfo_line cfg (c_str l) fresh) x"
    using l by (rule globals_cpuinfo_lines_last)
  ultimately show ?thesis
    using globals_cpuinfo_lines [of cfg "pre @ l" m x] Nil
    by simp
next
  case (Cons c post)
  with rest have "rest = CHR ''\<newline>'' # post"
    by simp
  then show ?thesis
    using line_contribution_newline [OF pre l(2,3), of cfg post m x]
    by simp
qed

lemma model_name_line:
  assumes "line = ''model name : ARMv7 Processor rev 2 (v7l)''"
    and "t = [] \<or> t = [CHR ''\<newline>'']"
  shows "line \<noteq> []" and "CHR ''\<newline>'' \<notin> set line" and "length line < 511"
    and "globals (cpuinfo_line cfg (c_str (line @ t)) fresh) x \<longleftrightarrow>
      x \<in> {mono_hwcap_arm_is_v5, mono_hwcap_arm_is_v6, mono_hwcap_arm_is_v7}"
  using assms(2) unfolding assms(1)
  by (auto simp: cpuinfo_line_def c_str_def strncmp_literals globals_version_checks
      c_char_def)

lemma features_line:
  assumes "line = ''Features : thumb vfp vfpv3''"
    and "t = [] \<or> t = [CHR ''\<newline>'']"
  shows "line \<noteq> []" and "CHR ''\<newline>'' \<notin> set line" and "length line < 511"
    and "globals (cpuinfo_line cfg (c_str (line @ t)) fresh) x \<longleftrightarrow>
      x \<in> {mono_hwcap_arm_has_thumb, mono_hwcap_arm_has_vfp, mono_hwcap_arm_has_vfp3}"
  using assms(2) unfolding assms(1)
  by (auto simp: cpuinfo_line_def c_str_def strncmp_literals Let_def)

lemma trace_cpuinfo_lines:
  "trace (cpuinfo_lines cfg stream m) = trace m @ trace (cpuinfo_lines cfg stream fresh)"
  by (rule or_step_fresh(1) [OF or_step_cpuinfo_lines])

lemma trace_cpuinfo_line:
  "trace (cpuinfo_line cfg line m) = trace m @ trace (cpuinfo_line cfg line fresh)"
  by (rule or_step_fresh(1) [OF or_step_cpuinfo_line])

lemma trace_cpuinfo_lines_append:
  assumes "pre = [] \<or> last pre = CHR ''\<newline>''"
  shows "\<exists>evs. trace (cpuinfo_lines cfg (pre @ rest) fresh) =
           evs @ trace (cpuinfo_lines cfg rest fresh)"
  using assms
proof (induction pre rule: length_induct)
  case (1 pre)
  show ?case
  proof (cases "pre = []")
    case True
    then show ?thesis by simp
  next
    case False
    with "1.prems" have last: "last pre = CHR ''\<newline>''"
      by simp
    from False last obtain buf pre' where a: "fgets 512 pre = Some (buf, pre')"
      and b: "fgets 512 (pre @ rest) = Some (buf, pre' @ rest)"
      and c: "length pre' < length pre"
      and d: "pre' = [] \<or> last pre' = CHR ''\<newline>''"
      by (rule fgets_within)
    let ?M = "cpuinfo_line cfg (c_str buf) (call Fgets fresh)"
    from "1.IH" c d obtain evs where
      evs: "trace (cpuinfo_lines cfg (pre' @ rest) fresh) =
              evs @ trace (cpuinfo_lines cfg rest fresh)"
      by blast
    have "trace (cpuinfo_lines cfg (pre @ rest) fresh) =
        trace ?M @ trace (cpuinfo_lines cfg (pre' @ rest) fresh)"
      using trace_cpuinfo_lines [of cfg "pre' @ rest" ?M]
      by (simp add: cpuinfo_lines_unfold [of cfg "pre @ rest"] b)
    with evs have "trace (cpuinfo_lines cfg (pre @ rest) fresh) =
        (trace ?M @ evs) @ trace (cpuinfo_lines cfg rest fresh)"
      by simp
    then show ?thesis
      by blast
  qed
qed

lemma fgets_whole_line:
  assumes "l \<noteq> []" and "CHR ''\<newline>'' \<notin> set l" and "length l < 511"
    and "rest = [] \<or> hd rest = CHR ''\<newline>''"
  shows "fgets 512 (l @ rest) = Some (l @ take 1 rest, tl rest)"
proof (cases rest)
  case Nil
  with fgets_last_line [OF assms(1-3)] show ?thesis
    by simp
next
  case (Cons c post)
  with assms(4) have "rest = CHR ''\<newline>'' # post"
    by simp
  with fgets_line [OF assms(2,3), of post] show ?thesis
    by simp
qed

lemma trace_cpuinfo_lines_line:
  assumes "l \<noteq> []" and "CHR ''\<newline>'' \<notin> set l" and "length l < 511"
    and "rest = [] \<or> hd rest = CHR ''\<newline>''"
  shows "trace (cpuinfo_lines cfg (l @ rest) fresh) =
           Call Fgets # trace (cpuinfo_line cfg (c_str (l @ take 1 rest)) fresh) @
           trace (cpuinfo_lines cfg (tl rest) fresh)"
  using fgets_whole_line [OF assms]
    trace_cpuinfo_lines [of cfg "tl rest"
      "cpuinfo_line cfg (c_str (l @ take 1 rest)) (call Fgets fresh)"]
    trace_cpuinfo_line [of cfg "c_str (l @ take 1 rest)" "call Fgets fresh"]
  by (simp add: cpuinfo_lines_unfold [of cfg "l @ rest"])

lemma line_events:
  assumes "pre = [] \<or> last pre = CHR ''\<newline>''"
    and "l \<noteq> []" and "CHR ''\<newline>'' \<notin> set l" and "length l < 511"
    and "rest = [] \<or> hd rest = CHR ''\<newline>''"
  shows "\<exists>before after. trace (cpuinfo_lines cfg (pre @ l @ rest) fresh) =
           before @ Call Fgets # trace (cpuinfo_line cfg (c_str (l @ take 1 rest)) fresh) @
           after"
proof -
  from trace_cpuinfo_lines_append [OF assms(1), of cfg "l @ rest"] obtain evs where
    "trace (cpuinfo_lines cfg (pre @ l @ rest) fresh) =
       evs @ trace (cpuinfo_lines cfg (l @ rest) fresh)"
    by blast
  with trace_cpuinfo_lines_line [OF assms(2-5), of cfg] show ?thesis
    by auto
qed

lemma trace_cpuinfo_lines_ends:
  "\<exists>evs. trace (cpuinfo_lines cfg stream fresh) = Call Fgets # evs"
  by (cases "fgets 512 stream")
     (auto simp: cpuinfo_lines_unfold [of cfg stream] trace_cpuinfo_lines [of cfg _ "cpuinfo_line _ _ _"]
        trace_cpuinfo_line [of cfg _ "call Fgets fresh"])

lemma features_not_processor:
  "prefix ''Features'' buf \<Longrightarrow>
     \<not> (prefix ''Processor'' buf \<or> prefix ''model name'' buf)"
  by (cases buf) auto

lemma features_stores:
  assumes "prefix ''Features'' buf"
  shows "(strstr buf ''thumb'' \<noteq> None \<longrightarrow>
            Store mono_hwcap_arm_has_thumb True \<in> set (trace (cpuinfo_line cfg buf fresh))) \<and>
         (strstr buf ''vfp'' \<noteq> None \<longrightarrow>
            Store mono_hwcap_arm_has_vfp True \<in> set (trace (cpuinfo_line cfg buf fresh))) \<and>
         (strstr buf ''vfpv3'' \<noteq> None \<longrightarrow>
            Store mono_hwcap_arm_has_vfp3 True \<in> set (trace (cpuinfo_line cfg buf fresh))) \<and>
         (strstr buf ''vfpv3-d16'' \<noteq> None \<longrightarrow>
            Store mono_hwcap_arm_has_vfp3_d16 True \<in> set (trace (cpuinfo_line cfg buf fresh)))"
  using assms features_not_processor [OF assms]
  by (simp add: cpuinfo_line_def strncmp_literals Let_def)

lemma version_stores:
  assumes "prefix ''Processor'' buf \<or> prefix ''model name'' buf"
    and "strstr buf ''(v'' = Some ver"
  shows "(char_value cfg CHR ''5'' \<le> char_value cfg (c_char ver 2) \<longrightarrow>
            Store mono_hwcap_arm_is_v5 True \<in> set (trace (cpuinfo_line cfg buf fresh))) \<and>
         (char_value cfg CHR ''6'' \<le> char_value cfg (c_char ver 2) \<longrightarrow>
            Store mono_hwcap_arm_is_v6 True \<in> set (trace (cpuinfo_line cfg buf fresh))) \<and>
         (char_value cfg CHR ''7'' \<le> char_value cfg (c_char ver 2) \<longrightarrow>
            Store mono_hwcap_arm_is_v7 True \<in> set (trace (cpuinfo_line cfg buf fresh)))"
  using assms
  by (simp add: cpuinfo_line_def strncmp_literals version_checks_def Let_def
      del: char_value_digits)


lemma line_stores:
  assumes "set (trace (cpuinfo_line cfg buf fresh)) \<subseteq> E"
  shows "(prefix ''Features'' buf \<longrightarrow>
              (strstr buf ''thumb'' \<noteq> None \<longrightarrow> Store mono_hwcap_arm_has_thumb True \<in> E) \<and>
              (strstr buf ''vfp'' \<noteq> None \<longrightarrow> Store mono_hwcap_arm_has_vfp True \<in> E) \<and>
              (strstr buf ''vfpv3'' \<noteq> None \<longrightarrow> Store mono_hwcap_arm_has_vfp3 True \<in> E) \<and>
              (strstr buf ''vfpv3-d16'' \<noteq> None \<longrightarrow>
                 Store mono_hwcap_arm_has_vfp3_d16 True \<in> E)) \<and>
           (prefix ''Processor'' buf \<or> prefix ''model name'' buf \<longrightarrow>
              (\<forall>ver. strstr buf ''(v'' = Some ver \<longrightarrow>
                 (char_value cfg CHR ''5'' \<le> char_value cfg (c_char ver 2) \<longrightarrow>
                    Store mono_hwcap_arm_is_v5 True \<in> E) \<and>
                 (char_value cfg CHR ''6'' \<le> char_value cfg (c_char ver 2) \<longrightarrow>
                    Store mono_hwcap_arm_is_v6 True \<in> E) \<and>
                 (char_value cfg CHR ''7'' \<le> char_value cfg (c_char ver 2) \<longrightarrow>
                    Store mono_hwcap_arm_is_v7 True \<in> E)))"
proof (intro conjI impI allI)
  assume "prefix ''Features'' buf"
  note f = features_stores [OF this, of cfg]
  show "Store mono_hwcap_arm_has_thumb True \<in> E" if "strstr buf ''thumb'' \<noteq> None"
    using f that assms by blast
  show "Store mono_hwcap_arm_has_vfp True \<in> E" if "strstr buf ''vfp'' \<noteq> None"
    using f that assms by blast
  show "Store mono_hwcap_arm_has_vfp3 True \<in> E" if "strstr buf ''vfpv3'' \<noteq> None"
    using f that assms by blast
  show "Store mono_hwcap_arm_has_vfp3_d16 True \<in> E" if "strstr buf ''vfpv3-d16'' \<noteq> None"
    using f that assms by blast
next
  fix ver
  assume "prefix ''Processor'' buf \<or> prefix ''model name'' buf"
    and "strstr buf ''(v'' = Some ver"
  note v = version_stores [OF this, of cfg]
  show "Store mono_hwcap_arm_is_v5 True \<in> E"
    if "char_value cfg CHR ''5'' \<le> char_value cfg (c_char ver 2)"
    using v that assms by blast
  show "Store mono_hwcap_arm_is_v6 True \<in> E"
    if "char_value cfg CHR ''6'' \<le> char_value cfg (c_char ver 2)"
    using v that assms by blast
  show "Store mono_hwcap_arm_is_v7 True \<in> E"
    if "char_value cfg CHR ''7'' \<le> char_value cfg (c_char ver 2)"
    using v that assms by blast
qed

section \<open>Properties of the specification\<close>

text \<open>
  C1: the architecture-version flags are ordered after every run. The initial values
  satisfy \<open>is_v7 \<Longrightarrow> is_v6 \<Longrightarrow> is_v5\<close>, and a run that starts from values that satisfy it
  and returns leaves values that satisfy it, on each of the three build variants.
\<close>

theorem arch_init_version_order:
  "arch_version_monotonic initial_globals \<and>
   (arch_version_monotonic (globals m) \<and> mono_hwcap_arch_init cfg env m = Inr m' \<longrightarrow>
      arch_version_monotonic (globals m'))"
proof -
  have "arch_version_monotonic initial_globals"
    by (simp add: arch_version_monotonic_def initial_globals_def)
  moreover have "arch_version_monotonic (globals m')"
    if "arch_version_monotonic (globals m)" and "mono_hwcap_arch_init cfg env m = Inr m'"
    using that
    by (auto simp: mono_hwcap_arch_init_def arch_init_fallback_def
        version_order_arch_init_apple
        intro: version_order_arch_init_auxv version_order_cpuinfo_scan
        dest: version_order_uname_check
        split: if_splits sum.splits)
  ultimately show ?thesis by blast
qed


theorem arch_init_version_order_witness:
  "arch_version_monotonic (globals fresh) \<and>
   (\<exists>m'. mono_hwcap_arch_init android_build armv7_cpuinfo_env fresh = Inr m' \<and>
      arch_version_monotonic (globals m') \<and> globals m' mono_hwcap_arm_is_v7 \<and>
      globals m' mono_hwcap_arm_is_v6 \<and> globals m' mono_hwcap_arm_is_v5)"
proof -
  have start: "arch_version_monotonic (globals fresh)"
    by (simp add: arch_version_monotonic_def)
  have "\<exists>m'. mono_hwcap_arch_init android_build armv7_cpuinfo_env fresh = Inr m' \<and>
      globals m' mono_hwcap_arm_is_v7 \<and> globals m' mono_hwcap_arm_is_v6 \<and>
      globals m' mono_hwcap_arm_is_v5"
    by (simp add: run_eval android_build_def armv7_cpuinfo_env_def)
  then obtain m' where
    run: "mono_hwcap_arch_init android_build armv7_cpuinfo_env fresh = Inr m'"
    and flags: "globals m' mono_hwcap_arm_is_v7" "globals m' mono_hwcap_arm_is_v6"
      "globals m' mono_hwcap_arm_is_v5"
    by blast
  from arch_init_version_order [of fresh android_build armv7_cpuinfo_env m'] start run
  have "arch_version_monotonic (globals m')"
    by blast
  with start run flags show ?thesis
    by blast
qed

text \<open>
  C2: on the text-based fallback path, when the machine name matches ARMv8, the
  machine-name step stores \<^verbatim>\<open>TRUE\<close> in all eight flags, and the cpuinfo scan runs all the
  same. The run returns; its trace is the call of \<^verbatim>\<open>uname\<close>, the eight stores, the call
  of \<^verbatim>\<open>fopen\<close> and then the events of the scan. When the file is opened, the scan calls
  \<^verbatim>\<open>fgets\<close> and \<^verbatim>\<open>fclose\<close>, its events are those of a scan that starts at process start,
  and for every line of the file the stores which that line causes (by the tokens of a
  \<^verbatim>\<open>Features\<close> line, by the character behind \<^verbatim>\<open>(v\<close> of a \<^verbatim>\<open>Processor\<close> or
  \<^verbatim>\<open>model name\<close> line) are among them, written over the all-true values. All eight flags
  are true after the run.
\<close>

theorem uname_then_cpuinfo_scan:
  assumes "\<not> (HAVE_SYS_AUXV_H cfg \<and> \<not> PLATFORM_ANDROID cfg)" and "\<not> APPLE cfg"
    and "HAVE_SYS_UTSNAME_H cfg"
    and "utsname_machine env = Some machine"
    and "prefix ''aarch64'' machine \<or> prefix ''armv8'' machine"
  shows "\<exists>m1 m' evs.
     uname_check cfg env m = Inr m1 \<and>
     trace m1 =
       trace m @ [Call Uname] @
       map (\<lambda>x. Store x True)
         [mono_hwcap_arm_is_v5, mono_hwcap_arm_is_v6, mono_hwcap_arm_is_v7,
          mono_hwcap_arm_has_vfp, mono_hwcap_arm_has_vfp3,
          mono_hwcap_arm_has_vfp3_d16, mono_hwcap_arm_has_thumb,
          mono_hwcap_arm_has_thumb2] \<and>
     (\<forall>x. globals m1 x) \<and>
     mono_hwcap_arch_init cfg env m = Inr m' \<and>
     trace m' = trace m1 @ [Call Fopen] @ evs \<and>
     (\<forall>x. globals m' x) \<and>
     evs =
       (case proc_cpuinfo env of
          None \<Rightarrow> []
        | Some content \<Rightarrow> trace (cpuinfo_lines cfg content fresh) @ [Call Fclose]) \<and>
     (\<forall>content. proc_cpuinfo env = Some content \<longrightarrow>
        (\<exists>scan. evs = Call Fgets # scan @ [Call Fclose]) \<and>
        (\<forall>pre line rest buf.
           content = pre @ line @ rest \<and>
           (pre = [] \<or> last pre = CHR ''\<newline>'') \<and>
           (rest = [] \<or> hd rest = CHR ''\<newline>'') \<and>
           line \<noteq> [] \<and> CHR ''\<newline>'' \<notin> set line \<and> length line < 511 \<and>
           buf = c_str (line @ take 1 rest) \<longrightarrow>
           (prefix ''Features'' buf \<longrightarrow>
              (strstr buf ''thumb'' \<noteq> None \<longrightarrow>
                 Store mono_hwcap_arm_has_thumb True \<in> set evs) \<and>
              (strstr buf ''vfp'' \<noteq> None \<longrightarrow>
                 Store mono_hwcap_arm_has_vfp True \<in> set evs) \<and>
              (strstr buf ''vfpv3'' \<noteq> None \<longrightarrow>
                 Store mono_hwcap_arm_has_vfp3 True \<in> set evs) \<and>
              (strstr buf ''vfpv3-d16'' \<noteq> None \<longrightarrow>
                 Store mono_hwcap_arm_has_vfp3_d16 True \<in> set evs)) \<and>
           (prefix ''Processor'' buf \<or> prefix ''model name'' buf \<longrightarrow>
              (\<forall>ver. strstr buf ''(v'' = Some ver \<longrightarrow>
                 (char_value cfg CHR ''5'' \<le> char_value cfg (c_char ver 2) \<longrightarrow>
                    Store mono_hwcap_arm_is_v5 True \<in> set evs) \<and>
                 (char_value cfg CHR ''6'' \<le> char_value cfg (c_char ver 2) \<longrightarrow>
                    Store mono_hwcap_arm_is_v6 True \<in> set evs) \<and>
                 (char_value cfg CHR ''7'' \<le> char_value cfg (c_char ver 2) \<longrightarrow>
                    Store mono_hwcap_arm_is_v7 True \<in> set evs)))))"
proof -
  let ?m1 = "armv8_assume_all (call Uname m)"
  let ?scan = "\<lambda>content. trace (cpuinfo_lines cfg content fresh)"
  let ?evs = "case proc_cpuinfo env of
      None \<Rightarrow> [] | Some content \<Rightarrow> ?scan content @ [Call Fclose]"
  from assms(3-5) have uname: "uname_check cfg env m = Inr ?m1"
    by (auto simp: uname_check_def strncmp_literals)
  have t1: "trace ?m1 = trace m @ [Call Uname] @
             map (\<lambda>x. Store x True)
               [mono_hwcap_arm_is_v5, mono_hwcap_arm_is_v6, mono_hwcap_arm_is_v7,
                mono_hwcap_arm_has_vfp, mono_hwcap_arm_has_vfp3,
                mono_hwcap_arm_has_vfp3_d16, mono_hwcap_arm_has_thumb,
                mono_hwcap_arm_has_thumb2]"
    by (simp add: armv8_assume_all_def Let_def)
  have g1: "\<forall>x. globals ?m1 x"
    by (simp add: globals_armv8_assume_all)
  from assms(1,2) uname have run:
    "mono_hwcap_arch_init cfg env m = Inr (cpuinfo_scan cfg env ?m1)"
    by (auto simp: mono_hwcap_arch_init_def arch_init_fallback_def)
  have t': "trace (cpuinfo_scan cfg env ?m1) = trace ?m1 @ [Call Fopen] @ ?evs"
  proof (cases "proc_cpuinfo env")
    case None
    then show ?thesis
      by (simp add: cpuinfo_scan_def)
  next
    case (Some content)
    with trace_cpuinfo_lines [of cfg content "call Fopen ?m1"] show ?thesis
      by (simp add: cpuinfo_scan_def)
  qed
  from or_step_cpuinfo_scan [of cfg env] obtain D where
    "\<And>m. globals (cpuinfo_scan cfg env m) = (\<lambda>x. globals m x \<or> D x)"
    unfolding or_step_def by blast
  with g1 have g': "\<forall>x. globals (cpuinfo_scan cfg env ?m1) x"
    by simp
  have lines: "(\<exists>scan. ?evs = Call Fgets # scan @ [Call Fclose]) \<and>
      (\<forall>pre line rest buf.
           content = pre @ line @ rest \<and>
           (pre = [] \<or> last pre = CHR ''\<newline>'') \<and>
           (rest = [] \<or> hd rest = CHR ''\<newline>'') \<and>
           line \<noteq> [] \<and> CHR ''\<newline>'' \<notin> set line \<and> length line < 511 \<and>
           buf = c_str (line @ take 1 rest) \<longrightarrow>
           (prefix ''Features'' buf \<longrightarrow>
              (strstr buf ''thumb'' \<noteq> None \<longrightarrow>
                 Store mono_hwcap_arm_has_thumb True \<in> set ?evs) \<and>
              (strstr buf ''vfp'' \<noteq> None \<longrightarrow>
                 Store mono_hwcap_arm_has_vfp True \<in> set ?evs) \<and>
              (strstr buf ''vfpv3'' \<noteq> None \<longrightarrow>
                 Store mono_hwcap_arm_has_vfp3 True \<in> set ?evs) \<and>
              (strstr buf ''vfpv3-d16'' \<noteq> None \<longrightarrow>
                 Store mono_hwcap_arm_has_vfp3_d16 True \<in> set ?evs)) \<and>
           (prefix ''Processor'' buf \<or> prefix ''model name'' buf \<longrightarrow>
              (\<forall>ver. strstr buf ''(v'' = Some ver \<longrightarrow>
                 (char_value cfg CHR ''5'' \<le> char_value cfg (c_char ver 2) \<longrightarrow>
                    Store mono_hwcap_arm_is_v5 True \<in> set ?evs) \<and>
                 (char_value cfg CHR ''6'' \<le> char_value cfg (c_char ver 2) \<longrightarrow>
                    Store mono_hwcap_arm_is_v6 True \<in> set ?evs) \<and>
                 (char_value cfg CHR ''7'' \<le> char_value cfg (c_char ver 2) \<longrightarrow>
                    Store mono_hwcap_arm_is_v7 True \<in> set ?evs))))"
    if cont: "proc_cpuinfo env = Some content" for content
  proof -
    have evs: "?evs = ?scan content @ [Call Fclose]"
      by (simp add: cont)
    from trace_cpuinfo_lines_ends [of cfg content] obtain scan where
      "?scan content = Call Fgets # scan"
      by blast
    then have first: "\<exists>scan. ?evs = Call Fgets # scan @ [Call Fclose]"
      by (simp add: evs)
    have part: "set (trace (cpuinfo_line cfg (c_str (line @ take 1 rest)) fresh)) \<subseteq> set ?evs"
      if "content = pre @ line @ rest" and "pre = [] \<or> last pre = CHR ''\<newline>''"
        and "rest = [] \<or> hd rest = CHR ''\<newline>''" and "line \<noteq> []"
        and "CHR ''\<newline>'' \<notin> set line" and "length line < 511"
      for pre line rest
    proof -
      from line_events [OF that(2,4,5,6,3), of cfg] obtain before after where
        "?scan (pre @ line @ rest) =
           before @ Call Fgets # trace (cpuinfo_line cfg (c_str (line @ take 1 rest)) fresh) @
           after"
        by blast
      then show ?thesis
        unfolding evs that(1) by auto
    qed
    show ?thesis
    proof (rule conjI, rule first, intro allI impI, elim conjE)
      fix pre line rest buf
      assume h: "content = pre @ line @ rest" "pre = [] \<or> last pre = CHR ''\<newline>''"
        "rest = [] \<or> hd rest = CHR ''\<newline>''" "line \<noteq> []"
        "CHR ''\<newline>'' \<notin> set line" "length line < 511"
        and buf: "buf = c_str (line @ take 1 rest)"
      from h have "set (trace (cpuinfo_line cfg buf fresh)) \<subseteq> set ?evs"
        unfolding buf by (rule part)
      then show "(prefix ''Features'' buf \<longrightarrow>
              (strstr buf ''thumb'' \<noteq> None \<longrightarrow>
                 Store mono_hwcap_arm_has_thumb True \<in> set ?evs) \<and>
              (strstr buf ''vfp'' \<noteq> None \<longrightarrow>
                 Store mono_hwcap_arm_has_vfp True \<in> set ?evs) \<and>
              (strstr buf ''vfpv3'' \<noteq> None \<longrightarrow>
                 Store mono_hwcap_arm_has_vfp3 True \<in> set ?evs) \<and>
              (strstr buf ''vfpv3-d16'' \<noteq> None \<longrightarrow>
                 Store mono_hwcap_arm_has_vfp3_d16 True \<in> set ?evs)) \<and>
           (prefix ''Processor'' buf \<or> prefix ''model name'' buf \<longrightarrow>
              (\<forall>ver. strstr buf ''(v'' = Some ver \<longrightarrow>
                 (char_value cfg CHR ''5'' \<le> char_value cfg (c_char ver 2) \<longrightarrow>
                    Store mono_hwcap_arm_is_v5 True \<in> set ?evs) \<and>
                 (char_value cfg CHR ''6'' \<le> char_value cfg (c_char ver 2) \<longrightarrow>
                    Store mono_hwcap_arm_is_v6 True \<in> set ?evs) \<and>
                 (char_value cfg CHR ''7'' \<le> char_value cfg (c_char ver 2) \<longrightarrow>
                    Store mono_hwcap_arm_is_v7 True \<in> set ?evs)))"
        by (rule line_stores)
    qed
  qed
  show ?thesis
    apply (intro exI conjI)
           apply (rule uname)
          apply (rule t1)
         apply (rule g1)
        apply (rule run)
       apply (rule t')
      apply (rule g')
     apply (rule refl)
    apply (intro allI impI)
    apply (erule lines)
    done
qed


theorem uname_then_cpuinfo_scan_witness:
  "\<exists>m'. mono_hwcap_arch_init android_build armv8_env fresh = Inr m' \<and>
     (\<forall>x. globals m' x) \<and>
     trace m' =
       [Call Uname,
        Store mono_hwcap_arm_is_v5 True, Store mono_hwcap_arm_is_v6 True,
        Store mono_hwcap_arm_is_v7 True, Store mono_hwcap_arm_has_vfp True,
        Store mono_hwcap_arm_has_vfp3 True, Store mono_hwcap_arm_has_vfp3_d16 True,
        Store mono_hwcap_arm_has_thumb True, Store mono_hwcap_arm_has_thumb2 True,
        Call Fopen, Call Fgets, Store mono_hwcap_arm_has_thumb True, Call Fgets,
        Call Fclose]"
proof -
  have "\<not> (HAVE_SYS_AUXV_H android_build \<and> \<not> PLATFORM_ANDROID android_build)"
    and "\<not> APPLE android_build" and "HAVE_SYS_UTSNAME_H android_build"
    and "utsname_machine armv8_env = Some ''aarch64''"
    and "prefix ''aarch64'' ''aarch64'' \<or> prefix ''armv8'' ''aarch64''"
    by (simp_all add: android_build_def armv8_env_def)
  note inst = uname_then_cpuinfo_scan [OF this, of fresh]
  have scan: "trace (cpuinfo_lines android_build ''Features : thumb\<newline>'' fresh) =
      [Call Fgets, Store mono_hwcap_arm_has_thumb True, Call Fgets]"
    by (simp add: run_eval android_build_def)
  from inst show ?thesis
  proof (elim exE conjE)
    fix m1 m' evs
    assume "trace m1 =
       trace fresh @ [Call Uname] @
       map (\<lambda>x. Store x True)
         [mono_hwcap_arm_is_v5, mono_hwcap_arm_is_v6, mono_hwcap_arm_is_v7,
          mono_hwcap_arm_has_vfp, mono_hwcap_arm_has_vfp3,
          mono_hwcap_arm_has_vfp3_d16, mono_hwcap_arm_has_thumb,
          mono_hwcap_arm_has_thumb2]"
      and "mono_hwcap_arch_init android_build armv8_env fresh = Inr m'"
      and "trace m' = trace m1 @ [Call Fopen] @ evs"
      and "\<forall>x. globals m' x"
      and "evs =
       (case proc_cpuinfo armv8_env of
          None \<Rightarrow> []
        | Some content \<Rightarrow> trace (cpuinfo_lines android_build content fresh) @ [Call Fclose])"
    with scan show ?thesis
      by (simp add: armv8_env_def)
  qed
qed

text \<open>
  C3: on the text-based fallback path, when the scan starts with all flags false and the
  file has the line \<^verbatim>\<open>model name : ARMv7 Processor rev 2 (v7l)\<close>, the three version flags
  are true after the run; when it has the line \<^verbatim>\<open>Features : thumb vfp vfpv3\<close>, has_thumb,
  has_vfp and has_vfp3 are true after the run, and has_vfp3_d16 is true only if the other
  lines of the file set it: it is false when the file is this line alone. A line of the
  file stands at its start or after a newline and ends at a newline or at its end.
\<close>

theorem cpuinfo_example_lines:
  assumes "\<not> (HAVE_SYS_AUXV_H cfg \<and> \<not> PLATFORM_ANDROID cfg)" and "\<not> APPLE cfg"
    and "uname_check cfg env m = Inr m1" and "globals m1 = initial_globals"
    and "proc_cpuinfo env = Some (pre @ line @ rest)"
    and "pre = [] \<or> last pre = CHR ''\<newline>''"
    and "rest = [] \<or> hd rest = CHR ''\<newline>''"
  shows "\<exists>m'. mono_hwcap_arch_init cfg env m = Inr m' \<and>
     (line = ''model name : ARMv7 Processor rev 2 (v7l)'' \<longrightarrow>
        globals m' mono_hwcap_arm_is_v5 \<and> globals m' mono_hwcap_arm_is_v6 \<and>
        globals m' mono_hwcap_arm_is_v7) \<and>
     (line = ''Features : thumb vfp vfpv3'' \<longrightarrow>
        globals m' mono_hwcap_arm_has_thumb \<and> globals m' mono_hwcap_arm_has_vfp \<and>
        globals m' mono_hwcap_arm_has_vfp3 \<and>
        (globals m' mono_hwcap_arm_has_vfp3_d16 \<longleftrightarrow>
           globals (cpuinfo_lines cfg (pre @ tl rest) fresh) mono_hwcap_arm_has_vfp3_d16) \<and>
        (pre = [] \<and> tl rest = [] \<longrightarrow> \<not> globals m' mono_hwcap_arm_has_vfp3_d16))"
proof -
  let ?m' = "call Fclose (cpuinfo_lines cfg (pre @ line @ rest) (call Fopen m1))"
  from assms(1-3,5) have run: "mono_hwcap_arch_init cfg env m = Inr ?m'"
    by (auto simp: mono_hwcap_arch_init_def arch_init_fallback_def cpuinfo_scan_def)
  have t: "take 1 rest = [] \<or> take 1 rest = [CHR ''\<newline>'']"
    using assms(7) by (cases rest) auto
  have contribution: "globals ?m' x \<longleftrightarrow>
      globals (cpuinfo_lines cfg (pre @ tl rest) fresh) x \<or>
      globals (cpuinfo_line cfg (c_str (line @ take 1 rest)) fresh) x"
    if "line \<noteq> []" and "CHR ''\<newline>'' \<notin> set line" and "length line < 511" for x
    using line_contribution [OF assms(6) that assms(7), of cfg "call Fopen m1" x] assms(4)
    by (simp add: initial_globals_def)
  have version: "globals ?m' mono_hwcap_arm_is_v5 \<and> globals ?m' mono_hwcap_arm_is_v6 \<and>
      globals ?m' mono_hwcap_arm_is_v7"
    if L: "line = ''model name : ARMv7 Processor rev 2 (v7l)''"
    using contribution [OF model_name_line(1-3) [OF L t]]
      model_name_line(4) [OF L t, of cfg]
    by simp
  have features: "globals ?m' mono_hwcap_arm_has_thumb \<and> globals ?m' mono_hwcap_arm_has_vfp \<and>
      globals ?m' mono_hwcap_arm_has_vfp3 \<and>
      (globals ?m' mono_hwcap_arm_has_vfp3_d16 \<longleftrightarrow>
         globals (cpuinfo_lines cfg (pre @ tl rest) fresh) mono_hwcap_arm_has_vfp3_d16)"
    if L: "line = ''Features : thumb vfp vfpv3''"
    using contribution [OF features_line(1-3) [OF L t]]
      features_line(4) [OF L t, of cfg]
    by simp
  have alone: "\<not> globals ?m' mono_hwcap_arm_has_vfp3_d16"
    if "line = ''Features : thumb vfp vfpv3''" and "pre = [] \<and> tl rest = []"
    using features [OF that(1)] that(2) by simp
  from run version features alone show ?thesis
    by auto
qed

theorem cpuinfo_example_lines_witness:
  "\<exists>m'. mono_hwcap_arch_init android_build armv7_cpuinfo_env fresh = Inr m' \<and>
     globals m' mono_hwcap_arm_is_v5 \<and> globals m' mono_hwcap_arm_is_v6 \<and>
     globals m' mono_hwcap_arm_is_v7 \<and>
     globals m' mono_hwcap_arm_has_thumb \<and> globals m' mono_hwcap_arm_has_vfp \<and>
     globals m' mono_hwcap_arm_has_vfp3 \<and> \<not> globals m' mono_hwcap_arm_has_vfp3_d16"
proof -
  let ?model = "''model name : ARMv7 Processor rev 2 (v7l)''"
  let ?features = "''Features : thumb vfp vfpv3''"
  have a: "\<not> (HAVE_SYS_AUXV_H android_build \<and> \<not> PLATFORM_ANDROID android_build)"
    and b: "\<not> APPLE android_build"
    and c: "uname_check android_build armv7_cpuinfo_env fresh = Inr (call Uname fresh)"
    and d: "globals (call Uname fresh) = initial_globals"
    by (simp_all add: android_build_def armv7_cpuinfo_env_def uname_check_def strncmp_eval
        fresh_def)
  have file1: "proc_cpuinfo armv7_cpuinfo_env =
      Some ([] @ ?model @ (''\<newline>'' @ ?features @ ''\<newline>''))"
    and file2: "proc_cpuinfo armv7_cpuinfo_env =
      Some ((?model @ ''\<newline>'') @ ?features @ ''\<newline>'')"
    by (simp_all add: armv7_cpuinfo_env_def)
  have start1: "[] = [] \<or> last [] = CHR ''\<newline>''"
    and start2: "?model @ ''\<newline>'' = [] \<or> last (?model @ ''\<newline>'') = CHR ''\<newline>''"
    and end1: "''\<newline>'' @ ?features @ ''\<newline>'' = [] \<or>
      hd (''\<newline>'' @ ?features @ ''\<newline>'') = CHR ''\<newline>''"
    and end2: "''\<newline>'' = [] \<or> hd ''\<newline>'' = CHR ''\<newline>''"
    by simp_all
  have others: "\<not> globals (cpuinfo_lines android_build ((?model @ ''\<newline>'') @ tl ''\<newline>'') fresh)
      mono_hwcap_arm_has_vfp3_d16"
    by (simp add: run_eval android_build_def)
  from cpuinfo_example_lines [OF a b c d file1 start1 end1]
    cpuinfo_example_lines [OF a b c d file2 start2 end2] others
  show ?thesis
    by auto
qed

text \<open>
  C4: on the text-based fallback path of a build that defines \<^verbatim>\<open>HAVE_SYS_UTSNAME_H\<close>, if
  \<^verbatim>\<open>name.machine\<close> starts with \<^verbatim>\<open>aarch64\<close> or with \<^verbatim>\<open>armv8\<close>, the run returns and all eight
  flags are true afterwards, whatever the flags were before and whatever cpuinfo holds.
  The machine name is read only under \<^verbatim>\<open>#if defined (HAVE_SYS_UTSNAME_H)\<close> (line 111).
\<close>

theorem armv8_machine_sets_all_flags:
  assumes "\<not> (HAVE_SYS_AUXV_H cfg \<and> \<not> PLATFORM_ANDROID cfg)" and "\<not> APPLE cfg"
    and "HAVE_SYS_UTSNAME_H cfg"
    and "utsname_machine env = Some machine"
    and "prefix ''aarch64'' machine \<or> prefix ''armv8'' machine"
  shows "\<exists>m'. mono_hwcap_arch_init cfg env m = Inr m' \<and> (\<forall>x. globals m' x)"
proof -
  let ?m1 = "armv8_assume_all (call Uname m)"
  from assms have "mono_hwcap_arch_init cfg env m = Inr (cpuinfo_scan cfg env ?m1)"
    by (auto simp: mono_hwcap_arch_init_def arch_init_fallback_def uname_check_def
        strncmp_literals)
  moreover from or_step_cpuinfo_scan [of cfg env] obtain D where
    "\<And>m. globals (cpuinfo_scan cfg env m) = (\<lambda>x. globals m x \<or> D x)"
    unfolding or_step_def by blast
  then have "\<forall>x. globals (cpuinfo_scan cfg env ?m1) x"
    by (simp add: globals_armv8_assume_all)
  ultimately show ?thesis
    by blast
qed

theorem armv8_machine_sets_all_flags_witness:
  "\<exists>m'. mono_hwcap_arch_init android_build armv8_env fresh = Inr m' \<and> (\<forall>x. globals m' x)"
proof -
  have "\<not> (HAVE_SYS_AUXV_H android_build \<and> \<not> PLATFORM_ANDROID android_build)"
    and "\<not> APPLE android_build" and "HAVE_SYS_UTSNAME_H android_build"
    and "utsname_machine armv8_env = Some ''aarch64''"
    and "prefix ''aarch64'' ''aarch64'' \<or> prefix ''armv8'' ''aarch64''"
    by (simp_all add: android_build_def armv8_env_def)
  then show ?thesis
    by (rule armv8_machine_sets_all_flags)
qed

text \<open>
  Without \<^verbatim>\<open>HAVE_SYS_UTSNAME_H\<close> the fallback path does not read the machine name: on an
  \<^verbatim>\<open>aarch64\<close> machine whose cpuinfo file cannot be opened, the run from the initial state
  only calls \<^verbatim>\<open>fopen\<close> and all eight flags stay false.
\<close>

theorem armv8_machine_without_utsname_counterexample:
  "\<not> (HAVE_SYS_AUXV_H no_utsname_build \<and> \<not> PLATFORM_ANDROID no_utsname_build) \<and>
   \<not> APPLE no_utsname_build \<and>
   utsname_machine aarch64_no_cpuinfo_env = Some ''aarch64'' \<and>
   mono_hwcap_arch_init no_utsname_build aarch64_no_cpuinfo_env fresh =
     Inr (call Fopen fresh) \<and>
   globals (call Fopen fresh) = initial_globals \<and>
   \<not> initial_globals mono_hwcap_arm_is_v5"
  by (simp add: no_utsname_build_def aarch64_no_cpuinfo_env_def mono_hwcap_arch_init_def
      arch_init_fallback_def uname_check_def cpuinfo_scan_def fresh_def initial_globals_def)

text \<open>
  C5: on the auxiliary-vector path, starting from all flags false, with the capability
  bitmask \<^verbatim>\<open>0x00000040\<close> (only the VFP bit) and a platform entry that gives no version (it
  is absent, or the second character of the string is below \<^verbatim>\<open>'5'\<close>), the run returns and
  exactly \<^verbatim>\<open>mono_hwcap_arm_has_vfp\<close> is true afterwards.
\<close>

theorem auxv_vfp_bit_only:
  assumes "HAVE_SYS_AUXV_H cfg \<and> \<not> PLATFORM_ANDROID cfg"
    and "globals m = initial_globals"
    and "auxv_hwcap env = 0x00000040"
    and "auxv_platform env = None \<or>
         (\<exists>str. auxv_platform env = Some str \<and> str \<noteq> [] \<and>
            char_value cfg (c_char str 1) < char_value cfg CHR ''5'')"
  shows "\<exists>m'. mono_hwcap_arch_init cfg env m = Inr m' \<and>
           globals m' = (\<lambda>x. x = mono_hwcap_arm_has_vfp)"
proof -
  have bits: "(0x40 :: 32 word) \<noteq> 0" "(0x40 :: 32 word) AND 0x4 = 0"
    "(0x40 :: 32 word) AND 0x40 \<noteq> 0" "(0x40 :: 32 word) AND 0x2000 = 0"
    "(0x40 :: 32 word) AND 0x4000 = 0"
    by simp_all
  from assms(4) show ?thesis
  proof
    assume "auxv_platform env = None"
    with assms(1-3) bits show ?thesis
      by (auto simp: mono_hwcap_arch_init_def arch_init_auxv_def globals_hwcap_checks
          initial_globals_def fun_eq_iff)
  next
    assume "\<exists>str. auxv_platform env = Some str \<and> str \<noteq> [] \<and>
            char_value cfg (c_char str 1) < char_value cfg CHR ''5''"
    then obtain str where "auxv_platform env = Some str" "str \<noteq> []"
      "char_value cfg (c_char str 1) < 53"
      by auto
    with assms(1-3) bits show ?thesis
      by (auto simp: mono_hwcap_arch_init_def arch_init_auxv_def globals_hwcap_checks
          globals_version_checks initial_globals_def fun_eq_iff)
  qed
qed

theorem auxv_vfp_bit_only_witness:
  "\<exists>m'. mono_hwcap_arch_init linux_build vfp_only_env fresh = Inr m' \<and>
     globals m' = (\<lambda>x. x = mono_hwcap_arm_has_vfp)"
proof -
  have "HAVE_SYS_AUXV_H linux_build \<and> \<not> PLATFORM_ANDROID linux_build"
    and "globals fresh = initial_globals"
    and "auxv_hwcap vfp_only_env = 0x00000040"
    and "auxv_platform vfp_only_env = None \<or>
         (\<exists>str. auxv_platform vfp_only_env = Some str \<and> str \<noteq> [] \<and>
            char_value linux_build (c_char str 1) < char_value linux_build CHR ''5'')"
    by (simp_all add: linux_build_def vfp_only_env_def fresh_def)
  then show ?thesis
    by (rule auxv_vfp_bit_only)
qed

text \<open>
  C6: on the auxiliary-vector path, for every platform string whose second character is
  \<^verbatim>\<open>'7'\<close>, the run returns and the three version flags are true afterwards.
\<close>

theorem auxv_platform_second_char_7:
  assumes "HAVE_SYS_AUXV_H cfg \<and> \<not> PLATFORM_ANDROID cfg"
    and "auxv_platform env = Some str"
    and "1 < length str" and "str ! 1 = CHR ''7''"
  shows "\<exists>m'. mono_hwcap_arch_init cfg env m = Inr m' \<and>
           globals m' mono_hwcap_arm_is_v5 \<and> globals m' mono_hwcap_arm_is_v6 \<and>
           globals m' mono_hwcap_arm_is_v7"
  using assms
  by (auto simp: mono_hwcap_arch_init_def arch_init_auxv_def Let_def globals_version_checks
      c_char_def)

theorem auxv_platform_second_char_7_witness:
  "\<exists>m'. mono_hwcap_arch_init linux_build v7l_env fresh = Inr m' \<and>
     globals m' mono_hwcap_arm_is_v5 \<and> globals m' mono_hwcap_arm_is_v6 \<and>
     globals m' mono_hwcap_arm_is_v7"
proof -
  have "HAVE_SYS_AUXV_H linux_build \<and> \<not> PLATFORM_ANDROID linux_build"
    and "auxv_platform v7l_env = Some ''v7l''"
    and "1 < length ''v7l''" and "''v7l'' ! 1 = CHR ''7''"
    by (simp_all add: linux_build_def v7l_env_def)
  then show ?thesis
    by (rule auxv_platform_second_char_7)
qed

text \<open>
  C7: on the text-based fallback path, when \<^verbatim>\<open>fopen\<close> of the cpuinfo file fails, a run that
  has passed the machine-name step returns, and every flag has the value it had after that
  step: the only effect of the cpuinfo step is the call of \<^verbatim>\<open>fopen\<close>. Starting from the
  initial values, a flag is then true only if the machine-name step has set it.
\<close>

theorem cpuinfo_absent_keeps_flags:
  assumes "\<not> (HAVE_SYS_AUXV_H cfg \<and> \<not> PLATFORM_ANDROID cfg)" and "\<not> APPLE cfg"
    and "proc_cpuinfo env = None"
    and "uname_check cfg env m = Inr m1"
  shows "\<exists>m'. mono_hwcap_arch_init cfg env m = Inr m' \<and>
           globals m' = globals m1 \<and> trace m' = trace m1 @ [Call Fopen] \<and>
           (globals m = initial_globals \<longrightarrow>
              (\<forall>x. globals m' x \<longleftrightarrow>
                 HAVE_SYS_UTSNAME_H cfg \<and>
                 (\<exists>machine. utsname_machine env = Some machine \<and>
                    (prefix ''aarch64'' machine \<or> prefix ''armv8'' machine))))"
proof -
  from assms have run: "mono_hwcap_arch_init cfg env m = Inr (call Fopen m1)"
    by (auto simp: mono_hwcap_arch_init_def arch_init_fallback_def cpuinfo_scan_def)
  have "\<forall>x. globals m1 x \<longleftrightarrow>
          HAVE_SYS_UTSNAME_H cfg \<and>
          (\<exists>machine. utsname_machine env = Some machine \<and>
             (prefix ''aarch64'' machine \<or> prefix ''armv8'' machine))"
    if "globals m = initial_globals"
    using uname_check_cases [OF assms(4)] that
    by (auto simp: globals_armv8_assume_all initial_globals_def)
  with run show ?thesis
    by simp
qed

theorem cpuinfo_absent_keeps_flags_witness:
  "\<exists>m1 m'. uname_check android_build no_cpuinfo_env fresh = Inr m1 \<and>
     mono_hwcap_arch_init android_build no_cpuinfo_env fresh = Inr m' \<and>
     globals m' = globals m1 \<and> trace m' = [Call Uname, Call Fopen] \<and>
     \<not> globals m' mono_hwcap_arm_is_v5"
proof -
  have a: "\<not> (HAVE_SYS_AUXV_H android_build \<and> \<not> PLATFORM_ANDROID android_build)"
    and b: "\<not> APPLE android_build"
    and c: "proc_cpuinfo no_cpuinfo_env = None"
    by (simp_all add: android_build_def no_cpuinfo_env_def)
  have "\<exists>m1. uname_check android_build no_cpuinfo_env fresh = Inr m1 \<and>
      trace m1 = [Call Uname] \<and> \<not> globals m1 mono_hwcap_arm_is_v5"
    by (simp add: run_eval android_build_def no_cpuinfo_env_def)
  then obtain m1 where d: "uname_check android_build no_cpuinfo_env fresh = Inr m1"
    and t: "trace m1 = [Call Uname]" and f: "\<not> globals m1 mono_hwcap_arm_is_v5"
    by blast
  from cpuinfo_absent_keeps_flags [OF a b c d] obtain m' where
    "mono_hwcap_arch_init android_build no_cpuinfo_env fresh = Inr m'"
    "globals m' = globals m1" "trace m' = trace m1 @ [Call Fopen]"
    by blast
  with d t f show ?thesis
    by auto
qed

text \<open>
  C8: for every state of the flags and every sink, \<^verbatim>\<open>mono_hwcap_print\<close> appends exactly
  eight lines to the sink, one per flag in the order is_v5, is_v6, is_v7, has_vfp,
  has_vfp3, has_vfp3_d16, has_thumb, has_thumb2, each the name of the variable followed by
  \<^verbatim>\<open> = 0\<close> or \<^verbatim>\<open> = 1\<close>.
\<close>

theorem mono_hwcap_print_lines:
  "mono_hwcap_print g f =
     f @ concat (map (\<lambda>(name, x). name @ '' = '' @ (if g x then ''1'' else ''0'') @ ''\<newline>'')
       [(''mono_hwcap_arm_is_v5'', mono_hwcap_arm_is_v5),
        (''mono_hwcap_arm_is_v6'', mono_hwcap_arm_is_v6),
        (''mono_hwcap_arm_is_v7'', mono_hwcap_arm_is_v7),
        (''mono_hwcap_arm_has_vfp'', mono_hwcap_arm_has_vfp),
        (''mono_hwcap_arm_has_vfp3'', mono_hwcap_arm_has_vfp3),
        (''mono_hwcap_arm_has_vfp3_d16'', mono_hwcap_arm_has_vfp3_d16),
        (''mono_hwcap_arm_has_thumb'', mono_hwcap_arm_has_thumb),
        (''mono_hwcap_arm_has_thumb2'', mono_hwcap_arm_has_thumb2)]) \<and>
   length (filter (\<lambda>c. c = CHR ''\<newline>'') (drop (length f) (mono_hwcap_print g f))) = 8"
proof -
  have eq: "mono_hwcap_print g f =
     f @ concat (map (\<lambda>(name, x). name @ '' = '' @ (if g x then ''1'' else ''0'') @ ''\<newline>'')
       [(''mono_hwcap_arm_is_v5'', mono_hwcap_arm_is_v5),
        (''mono_hwcap_arm_is_v6'', mono_hwcap_arm_is_v6),
        (''mono_hwcap_arm_is_v7'', mono_hwcap_arm_is_v7),
        (''mono_hwcap_arm_has_vfp'', mono_hwcap_arm_has_vfp),
        (''mono_hwcap_arm_has_vfp3'', mono_hwcap_arm_has_vfp3),
        (''mono_hwcap_arm_has_vfp3_d16'', mono_hwcap_arm_has_vfp3_d16),
        (''mono_hwcap_arm_has_thumb'', mono_hwcap_arm_has_thumb),
        (''mono_hwcap_arm_has_thumb2'', mono_hwcap_arm_has_thumb2)])"
    unfolding mono_hwcap_print_def g_fprintf_def Let_def
    by (simp add: format_int_gboolean del: if_split)
  moreover have "length (filter (\<lambda>c. c = CHR ''\<newline>'')
      (drop (length f) (mono_hwcap_print g f))) = 8"
    unfolding eq by (simp del: if_split)
  ultimately show ?thesis
    by blast
qed

theorem mono_hwcap_print_lines_witness:
  "mono_hwcap_print (\<lambda>x. x = mono_hwcap_arm_has_vfp) ''hwcap:\<newline>'' =
     ''hwcap:\<newline>'' @
     ''mono_hwcap_arm_is_v5 = 0\<newline>'' @
     ''mono_hwcap_arm_is_v6 = 0\<newline>'' @
     ''mono_hwcap_arm_is_v7 = 0\<newline>'' @
     ''mono_hwcap_arm_has_vfp = 1\<newline>'' @
     ''mono_hwcap_arm_has_vfp3 = 0\<newline>'' @
     ''mono_hwcap_arm_has_vfp3_d16 = 0\<newline>'' @
     ''mono_hwcap_arm_has_thumb = 0\<newline>'' @
     ''mono_hwcap_arm_has_thumb2 = 0\<newline>''"
  using mono_hwcap_print_lines [of "\<lambda>x. x = mono_hwcap_arm_has_vfp" "''hwcap:\<newline>''"]
  by simp

text \<open>
  C9: in a fixed build and environment, a second call of \<^verbatim>\<open>mono_hwcap_arch_init\<close> after
  one that has returned returns too and leaves all eight flags as the first call left them.
\<close>

theorem arch_init_idempotent:
  "mono_hwcap_arch_init cfg env m = Inr m1 \<Longrightarrow>
     (\<exists>m2. mono_hwcap_arch_init cfg env m1 = Inr m2 \<and> globals m2 = globals m1)"
proof -
  assume run: "mono_hwcap_arch_init cfg env m = Inr m1"
  from arch_init_cases [of cfg env] run obtain F
    where F: "or_step F" and all: "\<And>m. mono_hwcap_arch_init cfg env m = Inr (F m)"
    by auto
  from F obtain D where g: "\<And>m. globals (F m) = (\<lambda>x. globals m x \<or> D x)"
    unfolding or_step_def by blast
  from run all have m1: "m1 = F m"
    by simp
  have "globals (F m1) = globals m1"
    unfolding m1 by (simp add: g fun_eq_iff)
  with all [of m1] show ?thesis
    by simp
qed

theorem arch_init_idempotent_witness:
  "\<exists>m1 m2. mono_hwcap_arch_init android_build armv8_env fresh = Inr m1 \<and>
     mono_hwcap_arch_init android_build armv8_env m1 = Inr m2 \<and>
     globals m2 = globals m1 \<and> globals m1 mono_hwcap_arm_has_thumb2"
proof -
  have "\<exists>m1. mono_hwcap_arch_init android_build armv8_env fresh = Inr m1 \<and>
     globals m1 mono_hwcap_arm_has_thumb2"
    by (simp add: run_eval android_build_def armv8_env_def)
  then obtain m1 where run: "mono_hwcap_arch_init android_build armv8_env fresh = Inr m1"
    and t2: "globals m1 mono_hwcap_arm_has_thumb2"
    by blast
  from arch_init_idempotent [OF run] run t2 show ?thesis
    by blast
qed

text \<open>
  C10: within one run every assignment to a flag stores \<^verbatim>\<open>TRUE\<close>: the events the run
  appends to the trace contain no store of \<^verbatim>\<open>FALSE\<close>. Hence a flag that is set before
  the run is set after it, and the cpuinfo scan never clears a flag that an earlier step
  (such as the ARMv8 check on the machine name) has set.
\<close>

theorem arch_init_stores_only_true:
  "mono_hwcap_arch_init cfg env m = Inr m' \<Longrightarrow>
     (\<exists>evs. trace m' = trace m @ evs \<and> (\<forall>x. Store x False \<notin> set evs)) \<and>
     (\<forall>x. globals m x \<longrightarrow> globals m' x) \<and>
     (\<forall>m1 x. globals m1 x \<longrightarrow> globals (cpuinfo_scan cfg env m1) x)"
proof -
  assume run: "mono_hwcap_arch_init cfg env m = Inr m'"
  from arch_init_cases [of cfg env] run obtain F
    where F: "or_step F" and m': "m' = F m"
    by auto
  from F obtain D evs where t: "true_stores evs"
    and g: "\<And>m. globals (F m) = (\<lambda>x. globals m x \<or> D x)"
    and e: "\<And>m. trace (F m) = trace m @ evs"
    unfolding or_step_def by blast
  from or_step_cpuinfo_scan [of cfg env] obtain D' where
    g': "\<And>m. globals (cpuinfo_scan cfg env m) = (\<lambda>x. globals m x \<or> D' x)"
    unfolding or_step_def by blast
  have "trace m' = trace m @ evs \<and> (\<forall>x. Store x False \<notin> set evs)"
    using t by (simp add: m' e true_stores_iff)
  moreover have "\<forall>x. globals m x \<longrightarrow> globals m' x"
    by (simp add: m' g)
  moreover have "\<forall>m1 x. globals m1 x \<longrightarrow> globals (cpuinfo_scan cfg env m1) x"
    by (simp add: g')
  ultimately show ?thesis by blast
qed

theorem arch_init_stores_only_true_witness:
  "\<exists>m'. mono_hwcap_arch_init android_build armv8_env fresh = Inr m' \<and>
     (\<exists>evs. trace m' = trace fresh @ evs \<and> (\<forall>x. Store x False \<notin> set evs)) \<and>
     trace m' =
       [Call Uname,
        Store mono_hwcap_arm_is_v5 True, Store mono_hwcap_arm_is_v6 True,
        Store mono_hwcap_arm_is_v7 True, Store mono_hwcap_arm_has_vfp True,
        Store mono_hwcap_arm_has_vfp3 True, Store mono_hwcap_arm_has_vfp3_d16 True,
        Store mono_hwcap_arm_has_thumb True, Store mono_hwcap_arm_has_thumb2 True,
        Call Fopen, Call Fgets, Store mono_hwcap_arm_has_thumb True, Call Fgets,
        Call Fclose]"
proof -
  have "\<exists>m'. mono_hwcap_arch_init android_build armv8_env fresh = Inr m' \<and>
     trace m' =
       [Call Uname,
        Store mono_hwcap_arm_is_v5 True, Store mono_hwcap_arm_is_v6 True,
        Store mono_hwcap_arm_is_v7 True, Store mono_hwcap_arm_has_vfp True,
        Store mono_hwcap_arm_has_vfp3 True, Store mono_hwcap_arm_has_vfp3_d16 True,
        Store mono_hwcap_arm_has_thumb True, Store mono_hwcap_arm_has_thumb2 True,
        Call Fopen, Call Fgets, Store mono_hwcap_arm_has_thumb True, Call Fgets,
        Call Fclose]"
    by (simp add: run_eval android_build_def armv8_env_def)
  then obtain m' where run: "mono_hwcap_arch_init android_build armv8_env fresh = Inr m'"
    and tr: "trace m' =
       [Call Uname,
        Store mono_hwcap_arm_is_v5 True, Store mono_hwcap_arm_is_v6 True,
        Store mono_hwcap_arm_is_v7 True, Store mono_hwcap_arm_has_vfp True,
        Store mono_hwcap_arm_has_vfp3 True, Store mono_hwcap_arm_has_vfp3_d16 True,
        Store mono_hwcap_arm_has_thumb True, Store mono_hwcap_arm_has_thumb2 True,
        Call Fopen, Call Fgets, Store mono_hwcap_arm_has_thumb True, Call Fgets,
        Call Fclose]"
    by blast
  from arch_init_stores_only_true [OF run] run tr show ?thesis
    by blast
qed

end
